theory Spec2Isabelle
  imports Complex_Main "HOL-Library.Char_ord" "HOL-Library.List_Lexorder" "HOL-Library.Multiset"
begin

section \<open>Numbers\<close>

text \<open>
  A float64 value that is not NaN: a finite number or one of the two infinities. NaN, the
  missing value of a numeric column, is \<open>None\<close>. The sign of zero is not modelled.
\<close>

datatype num = NInf | Fin rat | PInf

type_synonym double = "num option"

instantiation num :: linorder
begin

definition less_eq_num :: "num \<Rightarrow> num \<Rightarrow> bool" where
  "less_eq_num a b =
    (case a of
       NInf \<Rightarrow> True
     | Fin x \<Rightarrow> (case b of NInf \<Rightarrow> False | Fin y \<Rightarrow> x \<le> y | PInf \<Rightarrow> True)
     | PInf \<Rightarrow> b = PInf)"

definition less_num :: "num \<Rightarrow> num \<Rightarrow> bool" where
  "less_num a b = (a \<le> b \<and> \<not> b \<le> (a :: num))"

instance
proof
  fix x y z :: num
  show "(x < y) = (x \<le> y \<and> \<not> y \<le> x)" by (simp add: less_num_def)
  show "x \<le> x" by (cases x) (simp_all add: less_eq_num_def)
  show "x \<le> y \<Longrightarrow> y \<le> z \<Longrightarrow> x \<le> z"
    by (cases x; cases y; cases z) (simp_all add: less_eq_num_def)
  show "x \<le> y \<Longrightarrow> y \<le> x \<Longrightarrow> x = y"
    by (cases x; cases y) (simp_all add: less_eq_num_def)
  show "x \<le> y \<or> y \<le> x"
    by (cases x; cases y) (auto simp: less_eq_num_def)
qed

end

text \<open>
  The rounding of IEEE arithmetic is a parameter: \<open>rnd\<close> takes the exact result of an
  addition, subtraction, multiplication or division of two finite numbers to the float64
  value the machine returns (a finite number, or an infinity on overflow), and \<open>sqrt_fl\<close>
  takes a non-negative finite number to its rounded square root.
\<close>

record fp =
  rnd :: "rat \<Rightarrow> num"
  sqrt_fl :: "rat \<Rightarrow> num"

definition sign :: "num \<Rightarrow> int" where
  "sign x = (case x of NInf \<Rightarrow> - 1 | Fin a \<Rightarrow> (if a < 0 then - 1 else if a = 0 then 0 else 1) | PInf \<Rightarrow> 1)"

definition signed_inf :: "int \<Rightarrow> num" where
  "signed_inf s = (if s < 0 then NInf else PInf)"

definition neg :: "num \<Rightarrow> num" where
  "neg x = (case x of NInf \<Rightarrow> PInf | Fin a \<Rightarrow> Fin (- a) | PInf \<Rightarrow> NInf)"

text \<open>The four operations and the square root on float64 values: NaN in gives NaN out,
  \<open>inf - inf\<close>, \<open>0 * inf\<close>, \<open>0 / 0\<close> and \<open>inf / inf\<close> are NaN, as is the root of a negative
  number.\<close>

definition fadd :: "fp \<Rightarrow> double \<Rightarrow> double \<Rightarrow> double" where
  "fadd fp a b =
    (case (a, b) of
       (Some (Fin x), Some (Fin y)) \<Rightarrow> Some (rnd fp (x + y))
     | (Some (Fin x), Some i) \<Rightarrow> Some i
     | (Some i, Some (Fin y)) \<Rightarrow> Some i
     | (Some i, Some j) \<Rightarrow> (if i = j then Some i else None)
     | _ \<Rightarrow> None)"

definition fsub :: "fp \<Rightarrow> double \<Rightarrow> double \<Rightarrow> double" where
  "fsub fp a b = fadd fp a (map_option neg b)"

definition fmul :: "fp \<Rightarrow> double \<Rightarrow> double \<Rightarrow> double" where
  "fmul fp a b =
    (case (a, b) of
       (Some (Fin x), Some (Fin y)) \<Rightarrow> Some (rnd fp (x * y))
     | (Some i, Some j) \<Rightarrow> (if sign i * sign j = 0 then None else Some (signed_inf (sign i * sign j)))
     | _ \<Rightarrow> None)"

definition fdiv :: "fp \<Rightarrow> double \<Rightarrow> double \<Rightarrow> double" where
  "fdiv fp a b =
    (case (a, b) of
       (Some (Fin x), Some (Fin y)) \<Rightarrow>
         (if y = 0 then (if x = 0 then None else Some (signed_inf (sign (Fin x))))
          else Some (rnd fp (x / y)))
     | (Some (Fin x), Some j) \<Rightarrow> Some (Fin 0)
     | (Some i, Some (Fin y)) \<Rightarrow> Some (signed_inf (sign i * (if y < 0 then - 1 else 1)))
     | _ \<Rightarrow> None)"

definition fsqrt :: "fp \<Rightarrow> double \<Rightarrow> double" where
  "fsqrt fp a =
    (case a of
       Some (Fin x) \<Rightarrow> (if x < 0 then None else Some (sqrt_fl fp x))
     | Some PInf \<Rightarrow> Some PInf
     | _ \<Rightarrow> None)"

text \<open>\<^verbatim>\<open>a < b\<close> on float64 values: false when one of them is NaN.\<close>

definition flt :: "double \<Rightarrow> double \<Rightarrow> bool" where
  "flt a b = (case (a, b) of (Some x, Some y) \<Rightarrow> x < y | _ \<Rightarrow> False)"

text \<open>The arithmetic that rounds nothing. Its square root is the whole part of the exact
  one, which is the exact one on the squares of whole numbers.\<close>

definition isqrt :: "nat \<Rightarrow> nat" where
  "isqrt n = length (filter (\<lambda>m. m * m \<le> n) [1..<Suc n])"

definition exact :: fp where
  "exact = \<lparr>rnd = Fin, sqrt_fl = (\<lambda>x. Fin (of_nat (isqrt (nat \<lfloor>x\<rfloor>))))\<rparr>"

definition is_fin :: "num \<Rightarrow> bool" where
  "is_fin x = (case x of Fin a \<Rightarrow> True | _ \<Rightarrow> False)"

definition fin_val :: "num \<Rightarrow> rat" where
  "fin_val x = (case x of Fin a \<Rightarrow> a | _ \<Rightarrow> 0)"

section \<open>Tables\<close>

text \<open>
  A pandas data frame as both scripts hold it after \<^verbatim>\<open>pd.read_csv\<close>: an ordered list of
  named columns, each column carrying its dtype and its values.
  \<^item> \<open>NumCol\<close>: an int64 or float64 column; \<open>None\<close> is NaN.
  \<^item> \<open>BoolCol\<close>: a bool column (it cannot hold a missing value).
  \<^item> \<open>ObjCol\<close>: an object column of Python strings as the loader yields it; \<open>None\<close> is NaN.
  \<^item> \<open>StrCol\<close>: a column of the pandas \<^verbatim>\<open>"string"\<close> dtype; \<open>None\<close> is \<^verbatim>\<open>pd.NA\<close>.
  Text is ASCII: a Python string is a list of characters below 128, compared by code point.
  The loader renames repeated header names, so the names of a loaded table are distinct,
  and all its columns have the same length.
\<close>

datatype column =
    NumCol "double list"
  | BoolCol "bool list"
  | ObjCol "string option list"
  | StrCol "string option list"

type_synonym table = "(string \<times> column) list"

datatype cell = NumV num | BoolV bool | TextV string | NaV

datatype error = AttributeError string | FileNotFoundError string | ParserError string

fun col_len :: "column \<Rightarrow> nat" where
  "col_len (NumCol xs) = length xs"
| "col_len (BoolCol xs) = length xs"
| "col_len (ObjCol xs) = length xs"
| "col_len (StrCol xs) = length xs"

definition opt_cell :: "('a \<Rightarrow> cell) \<Rightarrow> 'a option \<Rightarrow> cell" where
  "opt_cell f v = (case v of None \<Rightarrow> NaV | Some x \<Rightarrow> f x)"

fun col_cells :: "column \<Rightarrow> cell list" where
  "col_cells (NumCol xs) = map (opt_cell NumV) xs"
| "col_cells (BoolCol xs) = map BoolV xs"
| "col_cells (ObjCol xs) = map (opt_cell TextV) xs"
| "col_cells (StrCol xs) = map (opt_cell TextV) xs"

text \<open>\<^verbatim>\<open>len(df)\<close>: the common length of the columns.\<close>

definition nrows :: "table \<Rightarrow> nat" where
  "nrows df = (case df of [] \<Rightarrow> 0 | (n, c) # rest \<Rightarrow> col_len c)"

definition columns :: "table \<Rightarrow> string list" where
  "columns df = map fst df"

definition rectangular :: "table \<Rightarrow> bool" where
  "rectangular df = list_all (\<lambda>(n, c). col_len c = nrows df) df"

text \<open>\<^verbatim>\<open>s.isna().sum()\<close> of one column.\<close>

fun isna_count :: "column \<Rightarrow> nat" where
  "isna_count (NumCol xs) = length (filter (\<lambda>v. v = None) xs)"
| "isna_count (BoolCol xs) = 0"
| "isna_count (ObjCol xs) = length (filter (\<lambda>v. v = None) xs)"
| "isna_count (StrCol xs) = length (filter (\<lambda>v. v = None) xs)"

text \<open>\<^verbatim>\<open>df.select_dtypes(include=[np.number])\<close> keeps the int64 and float64 columns only.\<close>

fun is_number :: "column \<Rightarrow> bool" where
  "is_number (NumCol xs) = True"
| "is_number c = False"

section \<open>Python string methods\<close>

text \<open>\<^verbatim>\<open>str.isspace\<close> on one ASCII character: tab to carriage return, the four separators
  28 to 31, and the space.\<close>

definition is_space :: "char \<Rightarrow> bool" where
  "is_space c = (let n = (of_char c :: nat) in (9 \<le> n \<and> n \<le> 13) \<or> (28 \<le> n \<and> n \<le> 32))"

definition strip :: "string \<Rightarrow> string" where
  "strip s = rev (dropWhile is_space (rev (dropWhile is_space s)))"

definition lower_char :: "char \<Rightarrow> char" where
  "lower_char c = (let n = (of_char c :: nat) in if 65 \<le> n \<and> n \<le> 90 then char_of (n + 32) else c)"

definition upper_char :: "char \<Rightarrow> char" where
  "upper_char c = (let n = (of_char c :: nat) in if 97 \<le> n \<and> n \<le> 122 then char_of (n - 32) else c)"

definition lower :: "string \<Rightarrow> string" where
  "lower s = map lower_char s"

definition upper :: "string \<Rightarrow> string" where
  "upper s = map upper_char s"

section \<open>The cleaner (project1\_data\_cleaning.py)\<close>

subsection \<open>Step 4: duplicate rows\<close>

definition row_at :: "table \<Rightarrow> nat \<Rightarrow> cell list" where
  "row_at df i = map (\<lambda>(n, c). col_cells c ! i) df"

text \<open>\<^verbatim>\<open>df.duplicated()\<close>: row \<open>i\<close> is marked when an earlier row has the same cells; two
  missing cells count as the same.\<close>

definition duplicated :: "table \<Rightarrow> bool list" where
  "duplicated df = map (\<lambda>i. list_ex (\<lambda>j. row_at df j = row_at df i) [0..<i]) [0..<nrows df]"

definition take_rows :: "bool list \<Rightarrow> 'a list \<Rightarrow> 'a list" where
  "take_rows keep xs = map fst (filter snd (zip xs keep))"

fun col_take :: "bool list \<Rightarrow> column \<Rightarrow> column" where
  "col_take keep (NumCol xs) = NumCol (take_rows keep xs)"
| "col_take keep (BoolCol xs) = BoolCol (take_rows keep xs)"
| "col_take keep (ObjCol xs) = ObjCol (take_rows keep xs)"
| "col_take keep (StrCol xs) = StrCol (take_rows keep xs)"

text \<open>\<^verbatim>\<open>df.drop_duplicates().reset_index(drop=True)\<close>\<close>

definition drop_duplicates :: "table \<Rightarrow> table" where
  "drop_duplicates df = (let keep = map Not (duplicated df) in map (\<lambda>(n, c). (n, col_take keep c)) df)"

subsection \<open>Step 5: text clean-up\<close>

text \<open>The loop over \<^verbatim>\<open>select_dtypes(include=["object"])\<close>: each object column becomes a
  \<^verbatim>\<open>"string"\<close> column with every present value stripped.\<close>

fun strip_col :: "column \<Rightarrow> column" where
  "strip_col (ObjCol xs) = StrCol (map (map_option strip) xs)"
| "strip_col c = c"

definition strip_text_cols :: "table \<Rightarrow> table" where
  "strip_text_cols df = map (\<lambda>(n, c). (n, strip_col c)) df"

text \<open>The \<^verbatim>\<open>.str\<close> accessor exists on text columns only; on a numeric or bool column
  pandas raises AttributeError.\<close>

fun str_map :: "(string \<Rightarrow> string) \<Rightarrow> column \<Rightarrow> error + column" where
  "str_map f (StrCol xs) = Inr (StrCol (map (map_option f) xs))"
| "str_map f (ObjCol xs) = Inr (ObjCol (map (map_option f) xs))"
| "str_map f c = Inl (AttributeError ''Can only use .str accessor with string values!'')"

text \<open>\<^verbatim>\<open>s.replace({"": pd.NA})\<close>: an empty string becomes missing; a column that holds no
  strings is returned as it is.\<close>

definition empty_to_na :: "string option \<Rightarrow> string option" where
  "empty_to_na v = (if v = Some [] then None else v)"

fun replace_empty :: "column \<Rightarrow> error + column" where
  "replace_empty (StrCol xs) = Inr (StrCol (map empty_to_na xs))"
| "replace_empty (ObjCol xs) = Inr (ObjCol (map empty_to_na xs))"
| "replace_empty c = Inr c"

text \<open>\<^verbatim>\<open>if name in df.columns: df[name] = f(df[name])\<close>; the test is Python's \<open>in\<close> on the
  column index, an exact comparison of names.\<close>

fun update_named :: "string \<Rightarrow> (column \<Rightarrow> error + column) \<Rightarrow> table \<Rightarrow> error + table" where
  "update_named name f [] = Inr []"
| "update_named name f ((n, c) # df) =
    (if n = name then
       (case f c of
          Inl e \<Rightarrow> Inl e
        | Inr c' \<Rightarrow> (case update_named name f df of Inl e \<Rightarrow> Inl e | Inr df' \<Rightarrow> Inr ((n, c') # df')))
     else
       (case update_named name f df of Inl e \<Rightarrow> Inl e | Inr df' \<Rightarrow> Inr ((n, c) # df')))"

definition normalize_text :: "table \<Rightarrow> error + table" where
  "normalize_text df =
    (case update_named ''Sex'' (str_map lower) (strip_text_cols df) of
       Inl e \<Rightarrow> Inl e
     | Inr df1 \<Rightarrow>
        (case update_named ''Ticket'' (str_map upper) df1 of
           Inl e \<Rightarrow> Inl e
         | Inr df2 \<Rightarrow> update_named ''Embarked'' replace_empty df2))"

subsection \<open>Step 6: missing values\<close>

text \<open>\<^verbatim>\<open>df.isna().mean() * 100\<close> for one column: the mean of no rows is NaN (\<open>None\<close>).\<close>

definition missing_ratio :: "column \<Rightarrow> rat option" where
  "missing_ratio c =
    (if col_len c = 0 then None
     else Some (of_nat (isna_count c) / of_nat (col_len c) * 100))"

text \<open>\<^verbatim>\<open>missing_ratio > 60\<close>: a comparison with NaN is false.\<close>

definition over_threshold :: "column \<Rightarrow> bool" where
  "over_threshold c = (case missing_ratio c of None \<Rightarrow> False | Some r \<Rightarrow> r > 60)"

definition drop_cols :: "table \<Rightarrow> string list" where
  "drop_cols df = map fst (filter (\<lambda>(n, c). over_threshold c) df)"

definition drop_high_missing :: "table \<Rightarrow> table" where
  "drop_high_missing df = filter (\<lambda>(n, c). n \<notin> set (drop_cols df)) df"

text \<open>\<^verbatim>\<open>s.median()\<close>: missing values are skipped; the middle of the sorted present values,
  the mean of the two middle ones (their sum, halved) when their number is even, NaN when
  there is none. A sum that overflows is an infinity, and so is its half; the mean of
  \<open>-inf\<close> and \<open>inf\<close> is NaN.\<close>

definition present :: "'a option list \<Rightarrow> 'a list" where
  "present xs = concat (map (\<lambda>v. case v of None \<Rightarrow> [] | Some x \<Rightarrow> [x]) xs)"

definition median :: "fp \<Rightarrow> double list \<Rightarrow> double" where
  "median fp xs =
    (let s = sort (present xs); n = length s in
     if n = 0 then None
     else if odd n then Some (s ! (n div 2))
     else fdiv fp (fadd fp (Some (s ! (n div 2 - 1))) (Some (s ! (n div 2)))) (Some (Fin 2)))"

text \<open>\<^verbatim>\<open>s.fillna(v)\<close>; filling with NaN leaves the column as it is.\<close>

definition fillna :: "'a option \<Rightarrow> 'a option list \<Rightarrow> 'a option list" where
  "fillna v xs = map (\<lambda>x. case x of None \<Rightarrow> v | Some y \<Rightarrow> Some y) xs"

fun fill_numeric_col :: "fp \<Rightarrow> column \<Rightarrow> column" where
  "fill_numeric_col fp (NumCol xs) = (if None \<in> set xs then NumCol (fillna (median fp xs) xs) else NumCol xs)"
| "fill_numeric_col fp c = c"

definition fill_numeric :: "fp \<Rightarrow> table \<Rightarrow> table" where
  "fill_numeric fp df = map (\<lambda>(n, c). (n, fill_numeric_col fp c)) df"

text \<open>\<^verbatim>\<open>s.mode(dropna=True)\<close>: the most frequent present values, in sorted order.\<close>

definition mode :: "string option list \<Rightarrow> string list" where
  "mode xs =
    (let p = present xs in
     if p = [] then []
     else sort (remdups (filter (\<lambda>v. count_list p v = Max (set (map (count_list p) p))) p)))"

text \<open>\<^verbatim>\<open>mode_series.iloc[0] if len(mode_series) > 0 else "Unknown"\<close>\<close>

definition fill_value :: "string option list \<Rightarrow> string" where
  "fill_value xs = (case mode xs of [] \<Rightarrow> ''Unknown'' | m # ms \<Rightarrow> m)"

fun fill_categorical_col :: "column \<Rightarrow> column" where
  "fill_categorical_col (StrCol xs) = (if None \<in> set xs then StrCol (fillna (Some (fill_value xs)) xs) else StrCol xs)"
| "fill_categorical_col (ObjCol xs) = (if None \<in> set xs then ObjCol (fillna (Some (fill_value xs)) xs) else ObjCol xs)"
| "fill_categorical_col c = c"

definition fill_categorical :: "table \<Rightarrow> table" where
  "fill_categorical df = map (\<lambda>(n, c). (n, fill_categorical_col c)) df"

subsection \<open>The whole transformation\<close>

text \<open>Steps 4 to 6 of \<^verbatim>\<open>main\<close>, from the loaded table to the table that is saved.\<close>

definition clean :: "fp \<Rightarrow> table \<Rightarrow> error + table" where
  "clean fp df =
    (case normalize_text (drop_duplicates df) of
       Inl e \<Rightarrow> Inl e
     | Inr df1 \<Rightarrow> Inr (fill_categorical (fill_numeric fp (drop_high_missing df1))))"

section \<open>The analyzer (project1\_eda.py)\<close>

text \<open>What a run leaves behind, in order: the directory it creates, the report and plot
  files it saves (named inside the output directory) and the warnings it prints (without
  the newline and the sign that start each of them). The other console prints are not
  recorded.\<close>

datatype event = MadeDir string | SavedCsv string | SavedPlot string | Warned string

text \<open>\<^verbatim>\<open>colname(df, target)\<close>: the first column name equal to the target when both are
  lower-cased.\<close>

fun find_col :: "string list \<Rightarrow> string \<Rightarrow> string option" where
  "find_col [] target = None"
| "find_col (c # cs) target = (if lower c = lower target then Some c else find_col cs target)"

definition colname :: "table \<Rightarrow> string \<Rightarrow> string option" where
  "colname df target = find_col (columns df) target"

text \<open>\<^verbatim>\<open>df[name]\<close> for a name taken from the column index.\<close>

definition get_col :: "table \<Rightarrow> string \<Rightarrow> column" where
  "get_col df name = (case map_of df name of Some c \<Rightarrow> c | None \<Rightarrow> ObjCol [])"

definition num_cols :: "table \<Rightarrow> string list" where
  "num_cols df = map fst (filter (\<lambda>(n, c). is_number c) df)"

text \<open>The values of a numeric column; a bool column counts as 0 and 1 where pandas
  averages it.\<close>

fun numeric_values :: "column \<Rightarrow> double list" where
  "numeric_values (NumCol xs) = xs"
| "numeric_values (BoolCol xs) = map (\<lambda>b. Some (Fin (if b then 1 else 0))) xs"
| "numeric_values (ObjCol xs) = map (\<lambda>v. None) xs"
| "numeric_values (StrCol xs) = map (\<lambda>v. None) xs"

text \<open>\<^verbatim>\<open>s.sort_values(ascending=False)\<close> as pandas computes it: the entries that are not NaN
  are reversed, numpy's \<^verbatim>\<open>argsort\<close> gives the positions that sort their values upwards,
  these positions are reversed, and the NaN entries follow. The order numpy's default
  sort gives to equal values is not fixed, so \<open>argsort\<close> is a parameter.\<close>

definition sort_values_desc :: "('v list \<Rightarrow> nat list) \<Rightarrow> ('k \<times> 'v option) list \<Rightarrow> ('k \<times> 'v option) list" where
  "sort_values_desc argsort s =
    (let non_nans = concat (map (\<lambda>(k, v). case v of None \<Rightarrow> [] | Some x \<Rightarrow> [(k, x)]) s);
         nans = filter (\<lambda>(k, v). v = None) s;
         r = rev non_nans;
         indexer = rev (argsort (map snd r))
     in map (\<lambda>i. (fst (r ! i), Some (snd (r ! i)))) indexer @ nans)"

subsection \<open>Step 5: outliers by the IQR method\<close>

text \<open>\<^verbatim>\<open>series.quantile(q)\<close> with the default linear interpolation: the position
  \<open>q * (n - 1)\<close> in the sorted values, interpolated between its two neighbours. NaN
  (\<open>None\<close>) on an empty series. This is the computation on a series of finite values, in
  exact arithmetic.\<close>

definition quantile :: "rat list \<Rightarrow> rat \<Rightarrow> rat option" where
  "quantile series q =
    (let s = sort series; n = length s in
     if n = 0 then None
     else
       let pos = q * of_nat (n - 1);
           i = nat \<lfloor>pos\<rfloor>;
           j = min (i + 1) (n - 1);
           gamma = pos - of_nat i
       in Some (s ! i + (s ! j - s ! i) * gamma))"

record iqr =
  Q1 :: rat
  Q3 :: rat
  IQR :: rat
  lower_fence :: rat
  upper_fence :: rat

definition iqr_of :: "rat list \<Rightarrow> iqr option" where
  "iqr_of series =
    (case (quantile series (1 / 4), quantile series (3 / 4)) of
       (Some q1, Some q3) \<Rightarrow>
         Some \<lparr>Q1 = q1, Q3 = q3, IQR = q3 - q1,
               lower_fence = q1 - 3 / 2 * (q3 - q1), upper_fence = q3 + 3 / 2 * (q3 - q1)\<rparr>
     | _ \<Rightarrow> None)"

definition outliers :: "rat list \<Rightarrow> rat list" where
  "outliers series =
    (case iqr_of series of
       None \<Rightarrow> []
     | Some b \<Rightarrow> filter (\<lambda>v. v < lower_fence b \<or> v > upper_fence b) series)"

text \<open>The same computation on a series that holds an infinity, with the rules for
  infinities and NaN: numpy interpolates as \<open>a + (b - a) * gamma\<close>, and as
  \<open>b - (b - a) * (1 - gamma)\<close> when \<open>gamma\<close> is at least one half; a comparison with a NaN
  fence is false.\<close>

definition quantile_inf :: "num list \<Rightarrow> rat \<Rightarrow> double" where
  "quantile_inf series q =
    (let s = sort series; n = length s in
     if n = 0 then None
     else
       let pos = q * of_nat (n - 1);
           i = nat \<lfloor>pos\<rfloor>;
           j = min (i + 1) (n - 1);
           gamma = pos - of_nat i;
           a = Some (s ! i);
           b = Some (s ! j);
           diff_b_a = fsub exact b a
       in if gamma \<ge> 1 / 2 then fsub exact b (fmul exact diff_b_a (Some (Fin (1 - gamma))))
          else fadd exact a (fmul exact diff_b_a (Some (Fin gamma))))"

definition outliers_inf :: "num list \<Rightarrow> num list" where
  "outliers_inf series =
    (let q1 = quantile_inf series (1 / 4);
         q3 = quantile_inf series (3 / 4);
         iqr = fsub exact q3 q1;
         lower_f = fsub exact q1 (fmul exact (Some (Fin (3 / 2))) iqr);
         upper_f = fadd exact q3 (fmul exact (Some (Fin (3 / 2))) iqr)
     in filter (\<lambda>v. flt (Some v) lower_f \<or> flt upper_f (Some v)) series)"

text \<open>The loop body for one numeric column: \<^verbatim>\<open>series = df[col].dropna()\<close>, 0 when it is
  empty, the number of outliers otherwise.\<close>

definition outlier_count :: "column \<Rightarrow> nat" where
  "outlier_count c =
    (let series = present (numeric_values c) in
     if series = [] then 0
     else if list_all is_fin series then length (outliers (map fin_val series))
     else length (outliers_inf series))"

definition outlier_report :: "(nat list \<Rightarrow> nat list) \<Rightarrow> table \<Rightarrow> (string \<times> nat) list" where
  "outlier_report argsort df =
    map (\<lambda>(k, v). (k, the v))
      (sort_values_desc argsort (map (\<lambda>col. (col, Some (outlier_count (get_col df col)))) (num_cols df)))"

subsection \<open>Step 6: correlation\<close>

text \<open>\<^verbatim>\<open>df[num_cols].corr()\<close>: for a pair of columns pandas goes through the rows where
  both values are finite and updates, row by row, the number of rows, the two means, the
  two sums of squared deviations and the sum of the products of the deviations. The entry
  is NaN when there is no such row or the square root of the product of the two sums of
  squares is 0, and the sum of products divided by that root otherwise, brought back to
  1 or to -1 when rounding has taken it beyond.\<close>

definition both_finite :: "double list \<Rightarrow> double list \<Rightarrow> (rat \<times> rat) list" where
  "both_finite xs ys =
    concat (map (\<lambda>(x, y). case (x, y) of (Some (Fin a), Some (Fin b)) \<Rightarrow> [(a, b)] | _ \<Rightarrow> [])
      (zip xs ys))"

record moments =
  nobs :: nat
  meanx :: double
  meany :: double
  ssqdm_x :: double
  ssqdm_y :: double
  covxy :: double

definition no_rows :: moments where
  "no_rows = \<lparr>nobs = 0, meanx = Some (Fin 0), meany = Some (Fin 0),
               ssqdm_x = Some (Fin 0), ssqdm_y = Some (Fin 0), covxy = Some (Fin 0)\<rparr>"

definition add_row :: "fp \<Rightarrow> moments \<Rightarrow> rat \<times> rat \<Rightarrow> moments" where
  "add_row fp st row =
    (let vx = Some (Fin (fst row));
         vy = Some (Fin (snd row));
         n = nobs st + 1;
         dx = fsub fp vx (meanx st);
         dy = fsub fp vy (meany st);
         w = fdiv fp (Some (Fin 1)) (Some (Fin (of_nat n)));
         mx = fadd fp (meanx st) (fmul fp w dx);
         my = fadd fp (meany st) (fmul fp w dy)
     in \<lparr>nobs = n, meanx = mx, meany = my,
          ssqdm_x = fadd fp (ssqdm_x st) (fmul fp (fsub fp vx mx) dx),
          ssqdm_y = fadd fp (ssqdm_y st) (fmul fp (fsub fp vy my) dy),
          covxy = fadd fp (covxy st) (fmul fp (fsub fp vx mx) dy)\<rparr>)"

definition clip :: "double \<Rightarrow> double" where
  "clip v =
    (if flt (Some (Fin 1)) v then Some (Fin 1)
     else if flt v (Some (Fin (- 1))) then Some (Fin (- 1))
     else v)"

definition pearson :: "fp \<Rightarrow> double list \<Rightarrow> double list \<Rightarrow> double" where
  "pearson fp xs ys =
    (let st = foldl (add_row fp) no_rows (both_finite xs ys) in
     if nobs st < 1 then None
     else
       let divisor = fsqrt fp (fmul fp (ssqdm_x st) (ssqdm_y st))
       in if divisor \<noteq> Some (Fin 0) then clip (fdiv fp (covxy st) divisor) else None)"

text \<open>pandas computes the entries on and below the diagonal, the column of the row first,
  and writes each of them to both sides of the diagonal.\<close>

definition corr :: "fp \<Rightarrow> table \<Rightarrow> double list list" where
  "corr fp df =
    (let data = map (\<lambda>col. numeric_values (get_col df col)) (num_cols df);
         k = length data
     in map (\<lambda>i. map (\<lambda>j. pearson fp (data ! max i j) (data ! min i j)) [0..<k]) [0..<k])"

definition correlation_step :: "fp \<Rightarrow> table \<Rightarrow> double list list option \<times> event list" where
  "correlation_step fp df =
    (if length (num_cols df) \<ge> 2 then
       (Some (corr fp df), [SavedCsv ''correlation_matrix.csv'', SavedPlot ''correlation_heatmap.png''])
     else (None, [Warned ''Not enough numeric columns for correlation.'']))"

subsection \<open>Step 9: survival rate by sex\<close>

text \<open>\<^verbatim>\<open>pd.to_numeric(s, errors="coerce")\<close>: a numeric or bool column is returned as it is;
  each string of a text column is parsed, and one that is no number becomes NaN. The
  parser of numbers is a parameter.\<close>

fun to_numeric :: "(string \<Rightarrow> double) \<Rightarrow> column \<Rightarrow> column" where
  "to_numeric parse (NumCol xs) = NumCol xs"
| "to_numeric parse (BoolCol xs) = BoolCol xs"
| "to_numeric parse (ObjCol xs) = NumCol (map (\<lambda>v. case v of None \<Rightarrow> None | Some s \<Rightarrow> parse s) xs)"
| "to_numeric parse (StrCol xs) = NumCol (map (\<lambda>v. case v of None \<Rightarrow> None | Some s \<Rightarrow> parse s) xs)"

text \<open>\<^verbatim>\<open>df[name] = values\<close> for an existing column.\<close>

definition set_col :: "table \<Rightarrow> string \<Rightarrow> column \<Rightarrow> table" where
  "set_col df name c' = map (\<lambda>(n, c). if n = name then (n, c') else (n, c)) df"

text \<open>The keys of \<^verbatim>\<open>df.groupby(col)\<close>: the distinct present values, sorted.\<close>

fun group_keys :: "column \<Rightarrow> cell list" where
  "group_keys (NumCol xs) = map NumV (sort (remdups (present xs)))"
| "group_keys (BoolCol xs) = map BoolV (sort (remdups xs))"
| "group_keys (ObjCol xs) = map TextV (sort (remdups (present xs)))"
| "group_keys (StrCol xs) = map TextV (sort (remdups (present xs)))"

text \<open>The mean of the values of one group as pandas' \<^verbatim>\<open>group_mean\<close> computes it: the values
  are added one by one with a compensation term for the rounding of each addition, the
  term being set back to 0 when it has become NaN, and the sum is divided by the number
  of values.\<close>

record kahan =
  sumx :: double
  compensation :: double

definition kahan_add :: "fp \<Rightarrow> kahan \<Rightarrow> num \<Rightarrow> kahan" where
  "kahan_add fp st val =
    (let y = fsub fp (Some val) (compensation st);
         t = fadd fp (sumx st) y;
         c = fsub fp (fsub fp t (sumx st)) y
     in \<lparr>sumx = t, compensation = (if c = None then Some (Fin 0) else c)\<rparr>)"

definition mean_of :: "fp \<Rightarrow> num list \<Rightarrow> double" where
  "mean_of fp vs =
    fdiv fp (sumx (foldl (kahan_add fp) \<lparr>sumx = Some (Fin 0), compensation = Some (Fin 0)\<rparr> vs))
      (Some (Fin (of_nat (length vs))))"

text \<open>The mean of one group: over the rows whose key is \<open>k\<close> and whose value is present;
  NaN when there is none.\<close>

definition group_mean :: "fp \<Rightarrow> column \<Rightarrow> column \<Rightarrow> cell \<Rightarrow> double" where
  "group_mean fp by_col val_col k =
    (let vs = present (map snd (filter (\<lambda>(c, v). c = k) (zip (col_cells by_col) (numeric_values val_col))))
     in if vs = [] then None else mean_of fp vs)"

definition groupby_mean :: "fp \<Rightarrow> column \<Rightarrow> column \<Rightarrow> (cell \<times> double) list" where
  "groupby_mean fp by_col val_col = map (\<lambda>k. (k, group_mean fp by_col val_col k)) (group_keys by_col)"

definition survival_step ::
  "fp \<Rightarrow> (string \<Rightarrow> double) \<Rightarrow> (num list \<Rightarrow> nat list) \<Rightarrow> table
     \<Rightarrow> table \<times> (cell \<times> double) list option \<times> event list" where
  "survival_step fp parse argsort df =
    (case (colname df ''sex'', colname df ''survived'') of
       (Some sex_col, Some surv_col) \<Rightarrow>
         (let df' = set_col df surv_col (to_numeric parse (get_col df surv_col));
              survival_by_sex =
                sort_values_desc argsort (groupby_mean fp (get_col df' sex_col) (get_col df' surv_col))
          in (df', Some survival_by_sex,
              [SavedPlot ''bar_survival_rate_by_sex.png'', SavedCsv ''survival_rate_by_sex.csv'']))
     | _ \<Rightarrow> (df, None, [Warned ''Need both 'sex' and 'survived' for survival-by-sex plot. Skipping.'']))"

subsection \<open>The other steps: what they save\<close>

definition stats_step :: "table \<Rightarrow> event list" where
  "stats_step df =
    (if length (num_cols df) = 0 then [Warned ''No numeric columns found.'']
     else [SavedCsv ''basic_stats_numeric.csv''])"

definition histogram_step :: "table \<Rightarrow> event list" where
  "histogram_step df = (if length (num_cols df) > 0 then [SavedPlot ''histograms_numeric.png''] else [])"

definition sex_count_step :: "table \<Rightarrow> event list" where
  "sex_count_step df =
    (case colname df ''sex'' of
       Some sex_col \<Rightarrow> [SavedPlot ''bar_sex_counts.png'']
     | None \<Rightarrow> [Warned '''sex' column not found. Skipping sex bar chart.''])"

text \<open>Step 10 keeps the rows where both the age and the outcome are numbers; when one
  remains it saves the plot and the table of the ten age bins, whose contents are not
  part of the model.\<close>

definition both_present :: "'a option list \<Rightarrow> 'b option list \<Rightarrow> ('a \<times> 'b) list" where
  "both_present xs ys =
    concat (map (\<lambda>(x, y). case x of None \<Rightarrow> [] | Some a \<Rightarrow> (case y of None \<Rightarrow> [] | Some b \<Rightarrow> [(a, b)]))
      (zip xs ys))"

definition age_step :: "(string \<Rightarrow> double) \<Rightarrow> table \<Rightarrow> event list" where
  "age_step parse df =
    (case (colname df ''age'', colname df ''survived'') of
       (Some age_col, Some surv_col) \<Rightarrow>
         (let temp = both_present (numeric_values (to_numeric parse (get_col df age_col)))
                                  (numeric_values (to_numeric parse (get_col df surv_col)))
          in if temp = [] then [Warned ''No valid rows for age/survived line plot after dropping NaNs.'']
             else [SavedPlot ''line_survival_rate_by_age_bins.png'', SavedCsv ''survival_rate_by_age_bins.csv''])
     | _ \<Rightarrow> [Warned ''Need both 'age' and 'survived' for line plot. Skipping.''])"

subsection \<open>The run\<close>

definition input_file :: string where
  "input_file = ''titanic_cleaned.csv''"

definition out_dir :: string where
  "out_dir = ''eda_outputs''"

text \<open>The message of the FileNotFoundError; its first character, a cross mark, is written
  as its three UTF-8 bytes.\<close>

definition not_found_message :: "string \<Rightarrow> string" where
  "not_found_message f =
    [CHR 0xE2, CHR 0x9D, CHR 0x8C] @ '' '' @ [CHR 0x27] @ f @ [CHR 0x27]
      @ '' not found. Make sure it is in the same folder as this script.''"

record reports =
  outlier_series :: "(string \<times> nat) list"
  correlation :: "double list list option"
  survival_by_sex :: "(cell \<times> double) list option"

text \<open>What the run takes from its libraries: the number parser of \<^verbatim>\<open>to_numeric\<close>, numpy's
  \<^verbatim>\<open>argsort\<close> on an array of counts and on an array of float64 values, and the float64
  arithmetic.\<close>

record library =
  number_parser :: "string \<Rightarrow> double"
  sort_counts :: "nat list \<Rightarrow> nat list"
  sort_floats :: "num list \<Rightarrow> nat list"
  arith :: fp

text \<open>\<^verbatim>\<open>main\<close>: the file system is the test \<open>path_exists\<close> and the loader \<open>read_csv\<close>.
  The result is the error that ends the run or the reports, together with everything the
  run left behind up to that point.\<close>

definition eda_main ::
  "(string \<Rightarrow> bool) \<Rightarrow> (string \<Rightarrow> error + table) \<Rightarrow> library \<Rightarrow> (error + reports) \<times> event list" where
  "eda_main path_exists read_csv lib =
    (if \<not> path_exists input_file then (Inl (FileNotFoundError (not_found_message input_file)), [])
     else
       (case read_csv input_file of
          Inl e \<Rightarrow> (Inl e, [])
        | Inr df \<Rightarrow>
           (let (corr_m, corr_ev) = correlation_step (arith lib) df;
                (df', by_sex, sex_ev) = survival_step (arith lib) (number_parser lib) (sort_floats lib) df
            in (Inr \<lparr>outlier_series = outlier_report (sort_counts lib) df,
                      correlation = corr_m, survival_by_sex = by_sex\<rparr>,
                [MadeDir out_dir] @ stats_step df @ [SavedCsv ''outlier_report_iqr.csv'']
                  @ corr_ev @ histogram_step df @ sex_count_step df @ sex_ev
                  @ age_step (number_parser lib) df'))))"

section \<open>Notions used in the statements\<close>

text \<open>The fraction of missing values of a column, for a column with at least one row.\<close>

definition missing_fraction :: "column \<Rightarrow> rat" where
  "missing_fraction c = rat_of_nat (isna_count c) / rat_of_nat (col_len c)"

text \<open>The present values of a column that no other present value outnumbers.\<close>

definition most_frequent :: "string option list \<Rightarrow> string set" where
  "most_frequent xs =
    {v. Some v \<in> set xs \<and> (\<forall>w. Some w \<in> set xs \<longrightarrow> count_list xs (Some w) \<le> count_list xs (Some v))}"

text \<open>What the text clean-up does to one value, chosen by the exact name of its column.\<close>

definition designated :: "string \<Rightarrow> string option \<Rightarrow> string option" where
  "designated n v =
    (if n = ''Sex'' then map_option lower v
     else if n = ''Ticket'' then map_option upper v
     else if n = ''Embarked'' then empty_to_na v
     else v)"

fun normalized_col :: "string \<Rightarrow> column \<Rightarrow> column" where
  "normalized_col n (ObjCol xs) = StrCol (map (\<lambda>v. designated n (map_option strip v)) xs)"
| "normalized_col n (StrCol xs) = StrCol (map (designated n) xs)"
| "normalized_col n c = c"

text \<open>A column the \<^verbatim>\<open>.str\<close> accessor works on.\<close>

fun is_text :: "column \<Rightarrow> bool" where
  "is_text (ObjCol xs) = True"
| "is_text (StrCol xs) = True"
| "is_text c = False"

definition upd :: "(column \<Rightarrow> error + column) \<Rightarrow> column \<Rightarrow> column" where
  "upd f c = (case f c of Inl e \<Rightarrow> c | Inr c' \<Rightarrow> c')"

text \<open>A table as the loader returns it has no column of the \<^verbatim>\<open>"string"\<close> dtype.\<close>

fun no_string_dtype :: "column \<Rightarrow> bool" where
  "no_string_dtype (StrCol xs) = False"
| "no_string_dtype c = True"

definition loaded :: "table \<Rightarrow> bool" where
  "loaded df = list_all (\<lambda>(n, c). no_string_dtype c) df"

text \<open>The form in which a table comes back from the file it was written to when every
  value reads back as it was written: the text columns are object columns again. (A text
  value does not read back as written when it is empty or a marker of a missing value,
  nor when all values of its column read as numbers or booleans.)\<close>

fun as_loaded_col :: "column \<Rightarrow> column" where
  "as_loaded_col (StrCol xs) = ObjCol xs"
| "as_loaded_col c = c"

definition as_loaded :: "table \<Rightarrow> table" where
  "as_loaded df = map (\<lambda>(n, c). (n, as_loaded_col c)) df"

definition no_missing :: "table \<Rightarrow> bool" where
  "no_missing df = list_all (\<lambda>(n, c). isna_count c = 0) df"

text \<open>A value the clean-up of its column leaves as it is, and a column that holds such
  values only.\<close>

definition val_ok :: "string \<Rightarrow> string \<Rightarrow> bool" where
  "val_ok n v = (strip v = v \<and> (n = ''Sex'' \<longrightarrow> lower v = v) \<and> (n = ''Ticket'' \<longrightarrow> upper v = v)
      \<and> (n = ''Embarked'' \<longrightarrow> v \<noteq> []))"

fun settled :: "string \<Rightarrow> column \<Rightarrow> bool" where
  "settled n (ObjCol xs) = False"
| "settled n (StrCol xs) = (\<forall>v. Some v \<in> set xs \<longrightarrow> val_ok n v)"
| "settled n (NumCol xs) = (n \<noteq> ''Sex'' \<and> n \<noteq> ''Ticket'')"
| "settled n (BoolCol xs) = (n \<noteq> ''Sex'' \<and> n \<noteq> ''Ticket'')"

definition final_col :: "string \<Rightarrow> column \<Rightarrow> bool" where
  "final_col n c = (settled n c \<and> isna_count c = 0)"

text \<open>The finite values of a numeric column, and a column in which they are all equal.\<close>

definition finite_present :: "double list \<Rightarrow> rat list" where
  "finite_present xs = concat (map (\<lambda>v. case v of Some (Fin a) \<Rightarrow> [a] | _ \<Rightarrow> []) xs)"

definition all_equal :: "double list \<Rightarrow> bool" where
  "all_equal xs = (length (remdups (finite_present xs)) \<le> 1)"

definition num_data :: "table \<Rightarrow> double list list" where
  "num_data df = map (\<lambda>col. numeric_values (get_col df col)) (num_cols df)"

text \<open>The mean of a list of numbers, and the Pearson coefficient of a list of pairs as the
  textbook has it: the sum of the products of the deviations from the two means, divided
  by the square root of the product of the two sums of squared deviations; it is
  undefined for no pairs and where that root is 0.\<close>

definition mean :: "rat list \<Rightarrow> rat" where
  "mean vs = sum_list vs / of_nat (length vs)"

definition co_dev :: "('a \<Rightarrow> rat) \<Rightarrow> ('a \<Rightarrow> rat) \<Rightarrow> 'a list \<Rightarrow> rat" where
  "co_dev f g l = sum_list (map (\<lambda>p. (f p - mean (map f l)) * (g p - mean (map g l))) l)"

definition pearson_r :: "fp \<Rightarrow> (rat \<times> rat) list \<Rightarrow> double" where
  "pearson_r fp ps =
    (if ps = [] then None
     else
       let d = fsqrt fp (Some (Fin (co_dev fst fst ps * co_dev snd snd ps)))
       in if d \<noteq> Some (Fin 0) then clip (fdiv fp (Some (Fin (co_dev fst snd ps))) d) else None)"

text \<open>The moments of \<open>k\<close> rows that all hold the value \<open>c\<close> twice.\<close>

definition steady :: "rat \<Rightarrow> nat \<Rightarrow> moments" where
  "steady c k = \<lparr>nobs = k, meanx = Some (Fin c), meany = Some (Fin c),
                 ssqdm_x = Some (Fin 0), ssqdm_y = Some (Fin 0), covxy = Some (Fin 0)\<rparr>"

text \<open>What the statement on constant columns needs of the arithmetic: that it returns the
  exact result where this is 0, 1 or a value of the column, that the rounded reciprocal
  of a count is finite, and that the root of 0 is 0. IEEE arithmetic does so.\<close>

definition exact_on :: "fp \<Rightarrow> double list \<Rightarrow> bool" where
  "exact_on fp xs =
    (rnd fp 0 = Fin 0 \<and> rnd fp 1 = Fin 1 \<and> sqrt_fl fp 0 = Fin 0
     \<and> (\<forall>a \<in> set (finite_present xs). rnd fp a = Fin a)
     \<and> (\<forall>k. \<exists>w. rnd fp (1 / of_nat (Suc k)) = Fin w))"

text \<open>The square root is exact on the square of the sum of squared deviations of a
  column.\<close>

definition exact_root :: "fp \<Rightarrow> double list \<Rightarrow> bool" where
  "exact_root fp xs =
    (let s = co_dev fst fst (both_finite xs xs) in sqrt_fl fp (s * s) = Fin s)"

text \<open>The sum of squared deviations that the loop arrives at for a column paired with
  itself. It is regular when it is finite and not 0 and the rounded root of its rounded
  square is that sum again, as it is in IEEE arithmetic unless the square overflows or
  underflows.\<close>

definition self_ssq :: "fp \<Rightarrow> double list \<Rightarrow> double" where
  "self_ssq fp xs = ssqdm_x (foldl (add_row fp) no_rows (both_finite xs xs))"

definition ssq_regular :: "fp \<Rightarrow> double list \<Rightarrow> bool" where
  "ssq_regular fp xs =
    (case self_ssq fp xs of
       Some (Fin s) \<Rightarrow> s \<noteq> 0 \<and> fsqrt fp (fmul fp (Some (Fin s)) (Some (Fin s))) = Some (Fin s)
     | _ \<Rightarrow> False)"

text \<open>What a sort returns, whatever it does with equal values: positions \<open>0\<close> to \<open>n - 1\<close>,
  each once, in an order that takes the values upwards.\<close>

definition sorts :: "('v::linorder list \<Rightarrow> nat list) \<Rightarrow> bool" where
  "sorts argsort =
    (\<forall>xs. mset (argsort xs) = mset [0..<length xs] \<and> sorted (map (\<lambda>i. xs ! i) (argsort xs)))"

text \<open>A list of rates in descending order: no rate is followed by a larger one, and no NaN
  by a rate.\<close>

definition follows :: "double \<Rightarrow> double \<Rightarrow> bool" where
  "follows a b = (case b of None \<Rightarrow> True | Some y \<Rightarrow> (case a of None \<Rightarrow> False | Some x \<Rightarrow> y \<le> x))"

definition descending :: "double list \<Rightarrow> bool" where
  "descending rs = sorted_wrt follows rs"

text \<open>The rates of step 9 before they are sorted: the outcome column made numeric, grouped
  by the other column.\<close>

definition group_rates ::
  "fp \<Rightarrow> (string \<Rightarrow> double) \<Rightarrow> table \<Rightarrow> string \<Rightarrow> string \<Rightarrow> (cell \<times> double) list" where
  "group_rates fp parse df sex_col surv_col =
    (let df' = set_col df surv_col (to_numeric parse (get_col df surv_col))
     in groupby_mean fp (get_col df' sex_col) (get_col df' surv_col))"

subsection \<open>Examples\<close>

text \<open>A sort that keeps equal values in their order.\<close>

definition stable_argsort :: "'v::linorder list \<Rightarrow> nat list" where
  "stable_argsort xs = map snd (sort_key fst (zip xs [0..<length xs]))"

definition ex_library :: library where
  "ex_library = \<lparr>number_parser = (\<lambda>s. None), sort_counts = stable_argsort,
                   sort_floats = stable_argsort, arith = exact\<rparr>"

definition ex_passengers :: table where
  "ex_passengers =
    [(''Age'', NumCol [Some (Fin 3), None, Some (Fin 1)]),
     (''Cabin'', ObjCol [None, None, Some ''C1'']),
     (''Sex'', ObjCol [Some '' Male'', None, Some ''female''])]"

text \<open>A fare column with both infinities and one missing value.\<close>

definition ex_infinite :: table where
  "ex_infinite = [(''Fare'', NumCol [Some PInf, Some NInf, None])]"

text \<open>Ten different rows; \<open>a\<close> misses 7 of its 10 values, \<open>b\<close> misses 6.\<close>

definition ex_threshold :: table where
  "ex_threshold =
    [(''id'', NumCol [Some (Fin 1), Some (Fin 2), Some (Fin 3), Some (Fin 4), Some (Fin 5),
                      Some (Fin 6), Some (Fin 7), Some (Fin 8), Some (Fin 9), Some (Fin 10)]),
     (''a'', NumCol [None, None, None, None, None, None, None, Some (Fin 1), Some (Fin 2), Some (Fin 3)]),
     (''b'', NumCol [None, None, None, None, None, None, Some (Fin 1), Some (Fin 2), Some (Fin 3), Some (Fin 4)])]"

definition ex_spaces :: table where
  "ex_spaces = [(''Name'', ObjCol [Some '' a'', Some ''a'', Some ''b''])]"

definition ex_case :: table where
  "ex_case =
    [(''sex'', ObjCol [Some ''MALE'', Some '' Female '']),
     (''Sex'', ObjCol [Some ''MALE'', Some '' Female '']),
     (''Ticket'', ObjCol [Some ''pc 17599'', None]),
     (''Embarked'', ObjCol [Some ''  '', Some ''S'']),
     (''Fare'', NumCol [Some (Fin 7), Some (Fin 71)])]"

definition ex_header_only :: table where
  "ex_header_only = [(''Name'', ObjCol []), (''Sex'', ObjCol []), (''Age'', ObjCol [])]"

definition ex_ties :: "string option list" where
  "ex_ties = [Some ''S'', Some ''C'', None, Some ''S'', Some ''C'', Some ''Q'']"

definition ex_corr :: table where
  "ex_corr =
    [(''Pclass'', NumCol [Some (Fin 1), Some (Fin 1), Some (Fin 1)]),
     (''Fare'', NumCol [Some (Fin 1), Some (Fin 3), Some (Fin 5)]),
     (''Age'', NumCol [Some (Fin 5), Some (Fin 3), Some (Fin 1)]),
     (''Name'', ObjCol [Some ''a'', Some ''b'', Some ''c''])]"

definition ex_series :: "rat list" where
  "ex_series = [1, 2, 2, 3, 3, 3, 4, 4, 5, 100]"

definition ex_sex :: table where
  "ex_sex =
    [(''sex'', ObjCol [Some ''male'', Some ''male'', Some ''female'', Some ''female'']),
     (''survived'', NumCol [Some (Fin 0), Some (Fin 1), Some (Fin 1), Some (Fin 1)])]"

text \<open>The group with the lower rate has the key that sorts first.\<close>

definition ex_class :: table where
  "ex_class =
    [(''Sex'', ObjCol [Some ''a'', Some ''a'', Some ''b'']),
     (''Survived'', NumCol [Some (Fin 0), Some (Fin 1), Some (Fin 1)])]"

definition ex_no_survived :: table where
  "ex_no_survived = [(''Sex'', ObjCol [Some ''male'']), (''Fare'', NumCol [Some (Fin 7)])]"

section \<open>Properties of the cleaner\<close>

subsection \<open>Columns and the steps\<close>

lemma columns_strip_text_cols: "columns (strip_text_cols df) = columns df"
  by (induction df) (auto simp: columns_def strip_text_cols_def)

lemma columns_update_named: "update_named name f df = Inr df' \<Longrightarrow> columns df' = columns df"
  by (induction df arbitrary: df') (auto simp: columns_def split: if_splits sum.splits)

lemma columns_normalize_text: "normalize_text df = Inr df' \<Longrightarrow> columns df' = columns df"
  by (auto simp: normalize_text_def columns_strip_text_cols split: sum.splits dest!: columns_update_named)

lemma columns_drop_duplicates: "columns (drop_duplicates df) = columns df"
  by (induction df) (auto simp: columns_def drop_duplicates_def Let_def)

lemma columns_fill_numeric: "columns (fill_numeric fp df) = columns df"
  by (induction df) (auto simp: columns_def fill_numeric_def)

lemma columns_fill_categorical: "columns (fill_categorical df) = columns df"
  by (induction df) (auto simp: columns_def fill_categorical_def)

lemma over_threshold_iff:
  "over_threshold c \<longleftrightarrow> col_len c > 0 \<and> rat_of_nat (isna_count c) / rat_of_nat (col_len c) > 3 / 5"
proof (cases "col_len c = 0")
  case True
  then show ?thesis by (simp add: over_threshold_def missing_ratio_def)
next
  case False
  then have pos: "rat_of_nat (col_len c) > 0" by simp
  have "rat_of_nat (isna_count c) / rat_of_nat (col_len c) * 100 > 60
        \<longleftrightarrow> rat_of_nat (isna_count c) / rat_of_nat (col_len c) > 3 / 5"
    using pos by (simp add: field_simps)
  with False show ?thesis by (simp add: over_threshold_def missing_ratio_def)
qed

lemma drop_cols_distinct:
  assumes "distinct (columns df)" and "(n, c) \<in> set df"
  shows "n \<in> set (drop_cols df) \<longleftrightarrow> over_threshold c"
proof
  assume "n \<in> set (drop_cols df)"
  then obtain c' where c': "(n, c') \<in> set df" "over_threshold c'"
    by (auto simp: drop_cols_def)
  from assms c'(1) have "c' = c"
    unfolding columns_def by (meson eq_key_imp_eq_value)
  with c'(2) show "over_threshold c" by simp
next
  assume "over_threshold c"
  with assms(2) show "n \<in> set (drop_cols df)"
    by (force simp: drop_cols_def)
qed

lemma columns_drop_high_missing:
  "set (columns (drop_high_missing df)) = set (columns df) - set (drop_cols df)"
  by (auto simp: columns_def drop_high_missing_def)

lemma set_fill_numeric: "set (fill_numeric fp df) = (\<lambda>(n, c). (n, fill_numeric_col fp c)) ` set df"
  by (simp add: fill_numeric_def)

lemma set_fill_categorical: "set (fill_categorical df) = (\<lambda>(n, c). (n, fill_categorical_col c)) ` set df"
  by (simp add: fill_categorical_def)

lemma kept_not_over: "(n, c) \<in> set (drop_high_missing df) \<Longrightarrow> \<not> over_threshold c"
  by (force simp: drop_high_missing_def drop_cols_def)

lemma present_empty_iff: "present xs = [] \<longleftrightarrow> (\<forall>v \<in> set xs. v = None)"
  by (induction xs) (auto simp: present_def split: option.splits)

lemma set_present: "set (present xs) = {x. Some x \<in> set xs}"
  by (induction xs) (auto simp: present_def split: option.splits)

lemma not_over_has_present_num:
  assumes "\<not> over_threshold (NumCol xs)" and "None \<in> set xs"
  shows "present xs \<noteq> []"
proof
  assume "present xs = []"
  then have all: "\<forall>v \<in> set xs. v = None" by (simp add: present_empty_iff)
  from assms(2) have ne: "xs \<noteq> []" by auto
  with all have "isna_count (NumCol xs) = length xs" by (simp add: filter_id_conv)
  with ne have "over_threshold (NumCol xs)" by (simp add: over_threshold_iff)
  with assms(1) show False by simp
qed

lemma not_over_has_present_str:
  assumes "\<not> over_threshold (StrCol xs)" and "None \<in> set xs"
  shows "present xs \<noteq> []"
proof
  assume "present xs = []"
  then have all: "\<forall>v \<in> set xs. v = None" by (simp add: present_empty_iff)
  from assms(2) have ne: "xs \<noteq> []" by auto
  with all have "isna_count (StrCol xs) = length xs" by (simp add: filter_id_conv)
  with ne have "over_threshold (StrCol xs)" by (simp add: over_threshold_iff)
  with assms(1) show False by simp
qed

lemma sort_Nil_iff: "sort xs = [] \<longleftrightarrow> xs = []"
  by (metis length_sort length_0_conv)

lemma fadd_None:
  assumes "fadd fp (Some a) (Some b) = None"
  shows "(a = PInf \<and> b = NInf) \<or> (a = NInf \<and> b = PInf)"
  using assms by (cases a; cases b) (simp_all add: fadd_def)

lemma halve_Some: "fdiv fp (Some v) (Some (Fin 2)) \<noteq> None"
  by (cases v) (simp_all add: fdiv_def)

lemma median_None:
  assumes "median fp xs = None" and "present xs \<noteq> []"
  shows "PInf \<in> set (present xs) \<and> NInf \<in> set (present xs)"
proof -
  let ?s = "sort (present xs)"
  let ?n = "length (present xs)"
  from assms(2) have pos: "0 < ?n" by simp
  have even: "even ?n"
  proof (rule ccontr)
    assume "odd ?n"
    with assms(2) have "median fp xs = Some (?s ! (?n div 2))"
      by (simp add: median_def Let_def sort_Nil_iff)
    with assms(1) show False by simp
  qed
  with assms(2) have m: "median fp xs
      = fdiv fp (fadd fp (Some (?s ! (?n div 2 - 1))) (Some (?s ! (?n div 2)))) (Some (Fin 2))"
    by (simp add: median_def Let_def sort_Nil_iff)
  have "fadd fp (Some (?s ! (?n div 2 - 1))) (Some (?s ! (?n div 2))) = None"
  proof (cases "fadd fp (Some (?s ! (?n div 2 - 1))) (Some (?s ! (?n div 2)))")
    case None
    then show ?thesis .
  next
    case (Some v)
    with m assms(1) halve_Some [of fp v] show ?thesis by simp
  qed
  then have opp: "(?s ! (?n div 2 - 1) = PInf \<and> ?s ! (?n div 2) = NInf)
      \<or> (?s ! (?n div 2 - 1) = NInf \<and> ?s ! (?n div 2) = PInf)"
    by (rule fadd_None)
  from pos have i1: "?n div 2 - 1 < length ?s" and i2: "?n div 2 < length ?s"
    by (simp_all add: less_imp_diff_less)
  then have "?s ! (?n div 2 - 1) \<in> set ?s" and "?s ! (?n div 2) \<in> set ?s"
    by (simp_all only: nth_mem)
  then have "?s ! (?n div 2 - 1) \<in> set (present xs)" and "?s ! (?n div 2) \<in> set (present xs)"
    by simp_all
  with opp show ?thesis by metis
qed

lemma filter_None_Nil: "filter (\<lambda>v. v = None) xs = [] \<longleftrightarrow> None \<notin> set xs"
  by (induction xs) auto

lemma fillna_Some_no_None: "None \<notin> set (fillna (Some v) xs)"
  by (auto simp: fillna_def split: option.splits)

lemma fillna_None: "fillna None xs = xs"
  unfolding fillna_def by (rule map_idI) (simp split: option.splits)

lemma fill_col_result:
  assumes "\<not> over_threshold c"
  shows "isna_count (fill_categorical_col (fill_numeric_col fp c)) = 0
    \<or> (\<exists>xs. c = NumCol xs \<and> fill_categorical_col (fill_numeric_col fp c) = NumCol xs
          \<and> median fp xs = None \<and> Some PInf \<in> set xs \<and> Some NInf \<in> set xs)"
proof (cases c)
  case (NumCol xs)
  show ?thesis
  proof (cases "None \<in> set xs")
    case True
    with assms NumCol have p: "present xs \<noteq> []" by (simp add: not_over_has_present_num)
    show ?thesis
    proof (cases "median fp xs")
      case None
      with p have "PInf \<in> set (present xs) \<and> NInf \<in> set (present xs)" by (simp add: median_None)
      with None True NumCol show ?thesis by (simp add: fillna_None set_present)
    next
      case (Some m)
      with True NumCol show ?thesis by (simp add: filter_None_Nil fillna_Some_no_None)
    qed
  next
    case False
    with NumCol show ?thesis by (simp add: filter_None_Nil)
  qed
next
  case (BoolCol xs)
  then show ?thesis by simp
next
  case (ObjCol xs)
  then show ?thesis by (simp add: filter_None_Nil fillna_Some_no_None)
next
  case (StrCol xs)
  then show ?thesis by (simp add: filter_None_Nil fillna_Some_no_None)
qed

subsection \<open>No missing value remains\<close>

text \<open>
  Claim C1 as stated fails: a numeric column that holds \<open>inf\<close>, \<open>-inf\<close> and one missing value
  is kept, since one value of three is missing; its median is the mean of \<open>inf\<close> and \<open>-inf\<close>,
  which is NaN, and filling with NaN fills nothing. The column remains in the output, is
  not all missing, and has a missing value.
\<close>

theorem infinite_median_counterexample:
  "(\<forall>fp. clean fp ex_infinite = Inr ex_infinite)
   \<and> isna_count (NumCol [Some PInf, Some NInf, None]) = 1
   \<and> present [Some PInf, Some NInf, None] = [PInf, NInf]"
  by (simp add: ex_infinite_def clean_def drop_duplicates_def duplicated_def nrows_def row_at_def
      take_rows_def normalize_text_def strip_text_cols_def drop_high_missing_def drop_cols_def
      over_threshold_def missing_ratio_def fill_numeric_def fill_categorical_def median_def
      present_def fadd_def fdiv_def fillna_def opt_cell_def Let_def)

text \<open>
  Claim C1, amended. Whenever the cleaning transformation returns a table, every column
  that remains in it has a missing-value count of 0, unless it is a numeric column whose
  median is NaN, which needs \<open>inf\<close> and \<open>-inf\<close> among its values. (A column whose values are
  all missing has a missing ratio above the threshold and is dropped before imputation.)
\<close>

theorem clean_no_missing:
  assumes "clean fp df = Inr out" and "(n, c) \<in> set out"
  shows "isna_count c = 0
    \<or> (\<exists>xs. c = NumCol xs \<and> median fp xs = None \<and> Some PInf \<in> set xs \<and> Some NInf \<in> set xs)"
proof -
  from assms(1) obtain df1 where
    out: "out = fill_categorical (fill_numeric fp (drop_high_missing df1))"
    by (auto simp: clean_def split: sum.splits)
  with assms(2) obtain c0 where c0: "(n, c0) \<in> set (drop_high_missing df1)"
    and c: "c = fill_categorical_col (fill_numeric_col fp c0)"
    by (auto simp: set_fill_numeric set_fill_categorical)
  from c0 have "\<not> over_threshold c0" by (rule kept_not_over)
  from fill_col_result [OF this, of fp] c show ?thesis by auto
qed

theorem clean_no_missing_witness:
  "clean exact ex_passengers
     = Inr [(''Age'', NumCol [Some (Fin 3), Some (Fin 2), Some (Fin 1)]),
            (''Sex'', StrCol [Some ''male'', Some ''female'', Some ''female''])]
   \<and> isna_count (NumCol [Some (Fin 3), Some (Fin 2), Some (Fin 1)]) = 0
   \<and> isna_count (StrCol [Some ''male'', Some ''female'', Some ''female'']) = 0"
proof -
  have run: "clean exact ex_passengers
     = Inr [(''Age'', NumCol [Some (Fin 3), Some (Fin 2), Some (Fin 1)]),
            (''Sex'', StrCol [Some ''male'', Some ''female'', Some ''female''])]"
    unfolding ex_passengers_def by code_simp
  from clean_no_missing [OF run, of "''Age''" "NumCol [Some (Fin 3), Some (Fin 2), Some (Fin 1)]"]
  have a: "isna_count (NumCol [Some (Fin 3), Some (Fin 2), Some (Fin 1)]) = 0" by simp
  from clean_no_missing [OF run, of "''Sex''" "StrCol [Some ''male'', Some ''female'', Some ''female'']"]
  have b: "isna_count (StrCol [Some ''male'', Some ''female'', Some ''female'']) = 0" by simp
  from run a b show ?thesis by blast
qed

subsection \<open>The threshold\<close>

text \<open>
  Claim C3. After deduplication and text normalization, a column is dropped if and only if
  its fraction of missing values is strictly above 0.60 (a table without rows has no such
  fraction and keeps its columns); a column with 7 of 10 values missing is dropped and one
  with 6 of 10 missing is retained.
\<close>

theorem drop_iff_over_threshold:
  assumes "distinct (columns df)"
    and "normalize_text (drop_duplicates df) = Inr df1"
    and "(n, c) \<in> set df1"
  shows "\<exists>out. clean fp df = Inr out \<and>
           (n \<notin> set (columns out) \<longleftrightarrow> 0 < col_len c \<and> missing_fraction c > 3 / 5)"
proof -
  let ?out = "fill_categorical (fill_numeric fp (drop_high_missing df1))"
  from assms(2) have run: "clean fp df = Inr ?out" by (simp add: clean_def)
  from assms(2) have "columns df1 = columns df"
    by (simp add: columns_normalize_text columns_drop_duplicates)
  with assms(1) have d: "distinct (columns df1)" by simp
  from assms(3) have mem: "n \<in> set (columns df1)" by (force simp: columns_def)
  have "set (columns ?out) = set (columns df1) - set (drop_cols df1)"
    by (simp add: columns_fill_categorical columns_fill_numeric columns_drop_high_missing)
  with mem have "n \<notin> set (columns ?out) \<longleftrightarrow> n \<in> set (drop_cols df1)" by simp
  also have "\<dots> \<longleftrightarrow> over_threshold c" using d assms(3) by (rule drop_cols_distinct)
  also have "\<dots> \<longleftrightarrow> 0 < col_len c \<and> missing_fraction c > 3 / 5"
    by (simp add: over_threshold_iff missing_fraction_def)
  finally show ?thesis using run by blast
qed

theorem drop_iff_over_threshold_witness:
  "distinct (columns ex_threshold)
   \<and> normalize_text (drop_duplicates ex_threshold) = Inr ex_threshold
   \<and> missing_fraction (NumCol [None, None, None, None, None, None, None, Some (Fin 1), Some (Fin 2), Some (Fin 3)]) = 7 / 10
   \<and> missing_fraction (NumCol [None, None, None, None, None, None, Some (Fin 1), Some (Fin 2), Some (Fin 3), Some (Fin 4)]) = 6 / 10
   \<and> (\<exists>out. clean exact ex_threshold = Inr out \<and> ''a'' \<notin> set (columns out) \<and> ''b'' \<in> set (columns out))"
proof -
  let ?a = "NumCol [None, None, None, None, None, None, None, Some (Fin 1), Some (Fin 2), Some (Fin 3)]"
  let ?b = "NumCol [None, None, None, None, None, None, Some (Fin 1), Some (Fin 2), Some (Fin 3), Some (Fin 4)]"
  have d: "distinct (columns ex_threshold)"
    unfolding ex_threshold_def by code_simp
  have n: "normalize_text (drop_duplicates ex_threshold) = Inr ex_threshold"
    unfolding ex_threshold_def by code_simp
  have fa: "missing_fraction ?a = 7 / 10" by (simp add: missing_fraction_def)
  have fb: "missing_fraction ?b = 6 / 10" by (simp add: missing_fraction_def)
  have ma: "(''a'', ?a) \<in> set ex_threshold" and mb: "(''b'', ?b) \<in> set ex_threshold"
    by (simp_all add: ex_threshold_def)
  from drop_iff_over_threshold [OF d n ma, of exact] fa
  obtain out where out: "clean exact ex_threshold = Inr out" and a: "''a'' \<notin> set (columns out)"
    by auto
  from drop_iff_over_threshold [OF d n mb, of exact] fb out
  have b: "''b'' \<in> set (columns out)" by auto
  from d n fa fb out a b show ?thesis by blast
qed

subsection \<open>The mode of a text column\<close>

lemma count_present: "count_list (present xs) v = count_list xs (Some v)"
  by (induction xs) (auto simp: present_def split: option.splits)

lemma hd_sort_Min:
  fixes l :: "'a::linorder list"
  assumes "l \<noteq> []"
  shows "hd (sort l) = Min (set l)"
proof -
  from assms obtain y ys where s: "sort l = y # ys"
    by (cases "sort l") (auto simp: sort_Nil_iff)
  have "sorted (y # ys)" using sorted_sort [of l] s by simp
  then have le: "\<forall>z \<in> set (y # ys). y \<le> z" by auto
  have set_eq: "set (y # ys) = set l" using set_sort [of "\<lambda>x. x" l] s by simp
  have "Min (set l) = y"
  proof (rule Min_eqI)
    show "finite (set l)" by simp
    show "\<And>z. z \<in> set l \<Longrightarrow> y \<le> z" using le set_eq by blast
    show "y \<in> set l" using set_eq by auto
  qed
  with s show ?thesis by simp
qed

lemma set_mode:
  assumes "Some a \<in> set xs"
  shows "set (mode xs) = most_frequent xs"
proof -
  let ?p = "present xs"
  let ?M = "Max (set (map (count_list ?p) ?p))"
  from assms have ne: "?p \<noteq> []" by (auto simp: present_empty_iff)
  have fin: "finite (set (map (count_list ?p) ?p))" by simp
  have nonempty: "set (map (count_list ?p) ?p) \<noteq> {}" using ne by simp
  have eqM: "\<And>v. v \<in> set ?p \<Longrightarrow>
      (count_list ?p v = ?M) = (\<forall>w \<in> set ?p. count_list ?p w \<le> count_list ?p v)"
  proof -
    fix v assume v: "v \<in> set ?p"
    show "(count_list ?p v = ?M) = (\<forall>w \<in> set ?p. count_list ?p w \<le> count_list ?p v)"
    proof
      assume "count_list ?p v = ?M"
      then show "\<forall>w \<in> set ?p. count_list ?p w \<le> count_list ?p v"
        using fin by (auto intro: Max_ge)
    next
      assume a: "\<forall>w \<in> set ?p. count_list ?p w \<le> count_list ?p v"
      show "count_list ?p v = ?M"
      proof (rule sym, rule Max_eqI)
        show "finite (set (map (count_list ?p) ?p))" by simp
        show "\<And>y. y \<in> set (map (count_list ?p) ?p) \<Longrightarrow> y \<le> count_list ?p v"
          using a by auto
        show "count_list ?p v \<in> set (map (count_list ?p) ?p)" using v by auto
      qed
    qed
  qed
  have "set (mode xs) = {v \<in> set ?p. count_list ?p v = ?M}"
    using ne by (simp add: mode_def Let_def)
  also have "\<dots> = {v \<in> set ?p. \<forall>w \<in> set ?p. count_list ?p w \<le> count_list ?p v}"
    using eqM by blast
  also have "\<dots> = most_frequent xs"
    by (auto simp: most_frequent_def set_present count_present)
  finally show ?thesis .
qed

lemma most_frequent_nonempty:
  assumes "Some a \<in> set xs"
  shows "most_frequent xs \<noteq> {}"
proof -
  let ?p = "present xs"
  from assms have ne: "?p \<noteq> []" by (auto simp: present_empty_iff)
  then have "Max (set (map (count_list ?p) ?p)) \<in> set (map (count_list ?p) ?p)"
    by (intro Max_in) simp_all
  then obtain v where v: "v \<in> set ?p" "count_list ?p v = Max (set (map (count_list ?p) ?p))"
    by auto
  then have "v \<in> set (mode xs)" using ne by (simp add: mode_def Let_def)
  then show ?thesis using set_mode [OF assms] by auto
qed

lemma fill_value_Min:
  assumes "Some a \<in> set xs"
  shows "fill_value xs = Min (most_frequent xs)"
proof -
  let ?p = "present xs"
  let ?l = "remdups (filter (\<lambda>v. count_list ?p v = Max (set (map (count_list ?p) ?p))) ?p)"
  from assms have ne: "?p \<noteq> []" by (auto simp: present_empty_iff)
  then have m: "mode xs = sort ?l" by (simp add: mode_def Let_def)
  have sl: "set ?l = most_frequent xs" using set_mode [OF assms] m by simp
  then have "set ?l \<noteq> {}" using most_frequent_nonempty [OF assms] by simp
  then have lne: "?l \<noteq> []" by (metis set_empty)
  have "hd (sort ?l) = Min (most_frequent xs)" using hd_sort_Min [OF lne] sl by simp
  moreover have "fill_value xs = hd (sort ?l)"
    using m lne by (cases "sort ?l") (simp_all add: fill_value_def sort_Nil_iff)
  ultimately show ?thesis by simp
qed

text \<open>
  Claim C10. Categorical imputation is deterministic under ties: in a text column with a
  missing value and at least one present value, every gap is filled with the minimum, in
  sorted order, of the present values that are most frequent.
\<close>

theorem mode_tie_break_minimum:
  assumes "None \<in> set xs" and "Some a \<in> set xs"
  shows "fill_categorical_col (StrCol xs) = StrCol (fillna (Some (Min (most_frequent xs))) xs)"
  using assms by (simp add: fill_value_Min)

theorem mode_tie_break_minimum_witness:
  "None \<in> set ex_ties \<and> Some ''S'' \<in> set ex_ties
   \<and> Min (most_frequent ex_ties) = ''C''
   \<and> fill_categorical_col (StrCol ex_ties)
       = StrCol [Some ''S'', Some ''C'', Some ''C'', Some ''S'', Some ''C'', Some ''Q'']"
proof -
  have n: "None \<in> set ex_ties" and s: "Some ''S'' \<in> set ex_ties"
    by (simp_all add: ex_ties_def)
  have run: "fill_categorical_col (StrCol ex_ties)
       = StrCol [Some ''S'', Some ''C'', Some ''C'', Some ''S'', Some ''C'', Some ''Q'']"
    unfolding ex_ties_def by code_simp
  from mode_tie_break_minimum [OF n s] run
  have "fillna (Some (Min (most_frequent ex_ties))) ex_ties
      = [Some ''S'', Some ''C'', Some ''C'', Some ''S'', Some ''C'', Some ''Q'']"
    by simp
  then have m: "Min (most_frequent ex_ties) = ''C''"
    by (simp add: fillna_def ex_ties_def)
  from n s m run show ?thesis by blast
qed

subsection \<open>Text normalization\<close>

lemma update_named_map:
  "update_named name f df = Inr df' \<Longrightarrow>
   df' = map (\<lambda>(n, c). (n, if n = name then upd f c else c)) df"
  by (induction df arbitrary: df') (auto simp: upd_def split: if_splits sum.splits)

lemma update_named_ok:
  "update_named name f df = Inr df' \<Longrightarrow> (n, c) \<in> set df \<Longrightarrow> n = name \<Longrightarrow> \<exists>c'. f c = Inr c'"
  by (induction df arbitrary: df') (auto split: if_splits sum.splits)

lemma update_named_succeeds:
  "(\<And>n c. (n, c) \<in> set df \<Longrightarrow> n = name \<Longrightarrow> \<exists>c'. f c = Inr c') \<Longrightarrow>
   \<exists>df'. update_named name f df = Inr df'"
proof (induction df)
  case Nil
  then show ?case by simp
next
  case (Cons a df)
  obtain n c where a: "a = (n, c)" by (cases a)
  from Cons.prems have "\<And>n c. (n, c) \<in> set df \<Longrightarrow> n = name \<Longrightarrow> \<exists>c'. f c = Inr c'"
    by auto
  with Cons.IH obtain df' where t: "update_named name f df = Inr df'" by blast
  show ?case
  proof (cases "n = name")
    case True
    with Cons.prems a obtain c' where "f c = Inr c'" by auto
    with a t True show ?thesis by simp
  next
    case False
    with a t show ?thesis by simp
  qed
qed

lemma designated_other:
  "n \<noteq> ''Sex'' \<Longrightarrow> n \<noteq> ''Ticket'' \<Longrightarrow> n \<noteq> ''Embarked'' \<Longrightarrow> designated n = (\<lambda>v. v)"
  by (rule ext) (simp add: designated_def)

lemma normalized_col_steps:
  "(if n = ''Embarked'' then upd replace_empty
      (if n = ''Ticket'' then upd (str_map upper) (if n = ''Sex'' then upd (str_map lower) (strip_col c) else strip_col c)
       else (if n = ''Sex'' then upd (str_map lower) (strip_col c) else strip_col c))
    else (if n = ''Ticket'' then upd (str_map upper) (if n = ''Sex'' then upd (str_map lower) (strip_col c) else strip_col c)
       else (if n = ''Sex'' then upd (str_map lower) (strip_col c) else strip_col c)))
   = normalized_col n c"
  by (cases c) (auto simp: upd_def designated_def designated_other)

lemma normalize_text_map:
  assumes "normalize_text df = Inr df'"
  shows "df' = map (\<lambda>(n, c). (n, normalized_col n c)) df"
proof -
  from assms obtain df1 df2 where
    s1: "update_named ''Sex'' (str_map lower) (strip_text_cols df) = Inr df1" and
    s2: "update_named ''Ticket'' (str_map upper) df1 = Inr df2" and
    s3: "update_named ''Embarked'' replace_empty df2 = Inr df'"
    by (auto simp: normalize_text_def split: sum.splits)
  have "df' = map (\<lambda>(n, c). (n, if n = ''Embarked'' then upd replace_empty c else c))
           (map (\<lambda>(n, c). (n, if n = ''Ticket'' then upd (str_map upper) c else c))
             (map (\<lambda>(n, c). (n, if n = ''Sex'' then upd (str_map lower) c else c))
               (map (\<lambda>(n, c). (n, strip_col c)) df)))"
    using update_named_map [OF s1] update_named_map [OF s2] update_named_map [OF s3]
    by (simp add: strip_text_cols_def)
  also have "\<dots> = map (\<lambda>(n, c). (n, normalized_col n c)) df"
    by (simp add: case_prod_unfold comp_def normalized_col_steps [symmetric])
  finally show ?thesis .
qed

lemma str_map_text: "is_text c \<Longrightarrow> \<exists>c'. str_map f (strip_col c) = Inr c'"
  by (cases c) auto

lemma replace_empty_returns: "\<exists>c'. replace_empty c = Inr c'"
  by (cases c) auto

lemma normalize_text_returns:
  assumes "\<And>n c. (n, c) \<in> set df \<Longrightarrow> n = ''Sex'' \<or> n = ''Ticket'' \<Longrightarrow> is_text c"
  shows "\<exists>df'. normalize_text df = Inr df'"
proof -
  have "\<And>n c. (n, c) \<in> set (strip_text_cols df) \<Longrightarrow> n = ''Sex'' \<Longrightarrow> \<exists>c'. str_map lower c = Inr c'"
    using assms by (auto simp: strip_text_cols_def str_map_text)
  then obtain df1 where s1: "update_named ''Sex'' (str_map lower) (strip_text_cols df) = Inr df1"
    using update_named_succeeds [of "strip_text_cols df" "''Sex''" "str_map lower"] by blast
  have "\<And>n c. (n, c) \<in> set df1 \<Longrightarrow> n = ''Ticket'' \<Longrightarrow> \<exists>c'. str_map upper c = Inr c'"
  proof -
    fix n c assume m: "(n, c) \<in> set df1" and t: "n = ''Ticket''"
    from update_named_map [OF s1] m t have "(n, c) \<in> set (strip_text_cols df)" by auto
    with t assms show "\<exists>c'. str_map upper c = Inr c'"
      by (auto simp: strip_text_cols_def str_map_text)
  qed
  then obtain df2 where s2: "update_named ''Ticket'' (str_map upper) df1 = Inr df2"
    using update_named_succeeds [of df1 "''Ticket''" "str_map upper"] by blast
  obtain df3 where s3: "update_named ''Embarked'' replace_empty df2 = Inr df3"
    using update_named_succeeds [of df2 "''Embarked''" replace_empty] replace_empty_returns by blast
  from s1 s2 s3 show ?thesis by (simp add: normalize_text_def)
qed

text \<open>
  Claim C5 as stated fails: the clean-up looks the three columns up by their exact names. A
  column named \<open>sex\<close> differs from \<open>Sex\<close> in letter case only, and its values are stripped but
  not lower-cased.
\<close>

theorem case_insensitive_counterexample:
  "normalize_text [(''sex'', ObjCol [Some ''MALE''])] = Inr [(''sex'', StrCol [Some ''MALE''])]
   \<and> normalize_text [(''sex'', ObjCol [Some ''MALE''])] \<noteq> Inr [(''sex'', StrCol [Some (lower ''MALE'')])]"
  by code_simp

text \<open>
  Claim C5, amended. Text normalization selects the three designated columns by exact,
  case-sensitive name: whenever it returns, the values of a text column named \<open>Sex\<close> are
  stripped and lower-cased, those of one named \<open>Ticket\<close> are stripped and upper-cased, in one
  named \<open>Embarked\<close> they are stripped and the empty strings become missing, and every other
  text column, also one whose name differs from these in letter case only, is stripped and
  nothing else; columns that are not text are unchanged. It returns whenever the columns
  named \<open>Sex\<close> and \<open>Ticket\<close> are text columns.
\<close>

theorem normalize_text_exact_names:
  "(normalize_text df = Inr df' \<longrightarrow> df' = map (\<lambda>(n, c). (n, normalized_col n c)) df)
   \<and> ((\<forall>(n, c) \<in> set df. n = ''Sex'' \<or> n = ''Ticket'' \<longrightarrow> is_text c) \<longrightarrow>
        normalize_text df = Inr (map (\<lambda>(n, c). (n, normalized_col n c)) df))"
proof -
  have a: "normalize_text df = Inr df' \<longrightarrow> df' = map (\<lambda>(n, c). (n, normalized_col n c)) df"
    by (simp add: normalize_text_map)
  have b: "(\<forall>(n, c) \<in> set df. n = ''Sex'' \<or> n = ''Ticket'' \<longrightarrow> is_text c) \<longrightarrow>
        normalize_text df = Inr (map (\<lambda>(n, c). (n, normalized_col n c)) df)"
  proof
    assume h: "\<forall>(n, c) \<in> set df. n = ''Sex'' \<or> n = ''Ticket'' \<longrightarrow> is_text c"
    then obtain d where d: "normalize_text df = Inr d"
      using normalize_text_returns [of df] by blast
    with normalize_text_map [OF d] show "normalize_text df = Inr (map (\<lambda>(n, c). (n, normalized_col n c)) df)"
      by simp
  qed
  from a b show ?thesis by blast
qed

theorem normalize_text_exact_names_witness:
  "normalize_text ex_case
     = Inr [(''sex'', StrCol [Some ''MALE'', Some ''Female'']),
            (''Sex'', StrCol [Some ''male'', Some ''female'']),
            (''Ticket'', StrCol [Some ''PC 17599'', None]),
            (''Embarked'', StrCol [None, Some ''S'']),
            (''Fare'', NumCol [Some (Fin 7), Some (Fin 71)])]"
proof -
  have h: "\<forall>(n, c) \<in> set ex_case. n = ''Sex'' \<or> n = ''Ticket'' \<longrightarrow> is_text c"
    by (simp add: ex_case_def)
  have m: "map (\<lambda>(n, c). (n, normalized_col n c)) ex_case
     = [(''sex'', StrCol [Some ''MALE'', Some ''Female'']),
        (''Sex'', StrCol [Some ''male'', Some ''female'']),
        (''Ticket'', StrCol [Some ''PC 17599'', None]),
        (''Embarked'', StrCol [None, Some ''S'']),
        (''Fare'', NumCol [Some (Fin 7), Some (Fin 71)])]"
    unfolding ex_case_def by code_simp
  from normalize_text_exact_names [of ex_case] h
  have "normalize_text ex_case = Inr (map (\<lambda>(n, c). (n, normalized_col n c)) ex_case)"
    by blast
  with m show ?thesis by simp
qed

subsection \<open>The empty table\<close>

lemma nrows_empty_obj: "list_all (\<lambda>(n, c). c = ObjCol []) df \<Longrightarrow> nrows df = 0"
  by (cases df) (auto simp: nrows_def)

lemma drop_duplicates_empty_obj:
  assumes "list_all (\<lambda>(n, c). c = ObjCol []) df"
  shows "drop_duplicates df = df"
proof -
  from assms have "duplicated df = []" by (simp add: duplicated_def nrows_empty_obj)
  then have "drop_duplicates df = map (\<lambda>(n, c). (n, col_take [] c)) df"
    by (simp add: drop_duplicates_def)
  also have "\<dots> = df" using assms
    by (induction df) (auto simp: take_rows_def)
  finally show ?thesis .
qed

lemma strip_empty_obj:
  "list_all (\<lambda>(n, c). c = ObjCol []) df \<Longrightarrow>
   strip_text_cols df = map (\<lambda>(n, c). (n, StrCol [])) df"
  by (induction df) (auto simp: strip_text_cols_def)

lemma update_named_empty_str:
  assumes "f (StrCol []) = Inr (StrCol [])"
  shows "update_named name f (map (\<lambda>(n, c). (n, StrCol [])) df) = Inr (map (\<lambda>(n, c). (n, StrCol [])) df)"
  using assms by (induction df) auto

lemma normalize_empty_obj:
  assumes "list_all (\<lambda>(n, c). c = ObjCol []) df"
  shows "normalize_text df = Inr (map (\<lambda>(n, c). (n, StrCol [])) df)"
  using assms by (simp add: normalize_text_def strip_empty_obj update_named_empty_str)

lemma not_over_empty: "\<not> over_threshold (StrCol [])"
  by (simp add: over_threshold_def missing_ratio_def)

lemma drop_high_missing_empty_str:
  "drop_high_missing (map (\<lambda>(n, c). (n, StrCol [])) df) = map (\<lambda>(n, c). (n, StrCol [])) df"
proof -
  have "drop_cols (map (\<lambda>(n, c). (n, StrCol [])) df) = []"
    by (induction df) (auto simp: drop_cols_def not_over_empty)
  then show ?thesis by (simp add: drop_high_missing_def)
qed

lemma fill_empty_str:
  "fill_categorical (fill_numeric fp (map (\<lambda>(n, c). (n, StrCol [])) df)) = map (\<lambda>(n, c). (n, StrCol [])) df"
  by (induction df) (auto simp: fill_categorical_def fill_numeric_def)

text \<open>
  Claim C9. For an input table with zero rows (the loader yields an empty object column for
  every name of a header-only file) the cleaning completes without an error and returns
  a table with the same columns and zero rows.
\<close>

theorem clean_empty_table:
  assumes "list_all (\<lambda>(n, c). c = ObjCol []) df"
  shows "clean fp df = Inr (map (\<lambda>(n, c). (n, StrCol [])) df)
    \<and> (\<exists>out. clean fp df = Inr out \<and> columns out = columns df \<and> nrows out = 0
           \<and> list_all (\<lambda>(n, c). col_len c = 0) out)"
proof -
  let ?out = "map (\<lambda>(n, c). (n, StrCol [])) df"
  from assms have run: "clean fp df = Inr ?out"
    by (simp add: clean_def drop_duplicates_empty_obj normalize_empty_obj
        drop_high_missing_empty_str fill_empty_str)
  have c: "columns ?out = columns df" by (induction df) (auto simp: columns_def)
  have r: "nrows ?out = 0" by (cases df) (auto simp: nrows_def)
  have l: "list_all (\<lambda>(n, c). col_len c = 0) ?out" by (induction df) auto
  from run c r l show ?thesis by blast
qed

theorem clean_empty_table_witness:
  "list_all (\<lambda>(n, c). c = ObjCol []) ex_header_only
   \<and> nrows ex_header_only = 0
   \<and> clean exact ex_header_only = Inr [(''Name'', StrCol []), (''Sex'', StrCol []), (''Age'', StrCol [])]
   \<and> nrows [(''Name'', StrCol []), (''Sex'', StrCol []), (''Age'', StrCol [])] = 0"
proof -
  have h: "list_all (\<lambda>(n, c). c = ObjCol []) ex_header_only"
    by (simp add: ex_header_only_def)
  have z: "nrows ex_header_only = 0" by (simp add: ex_header_only_def nrows_def)
  from clean_empty_table [OF h, of exact]
  have run: "clean exact ex_header_only = Inr [(''Name'', StrCol []), (''Sex'', StrCol []), (''Age'', StrCol [])]"
    by (simp add: ex_header_only_def)
  have z': "nrows [(''Name'', StrCol []), (''Sex'', StrCol []), (''Age'', StrCol [])] = 0"
    by (simp add: nrows_def)
  from h z run z' show ?thesis by blast
qed

subsection \<open>A second application\<close>

lemma lower_char_idem: "lower_char (lower_char c) = lower_char c"
  by (simp add: lower_char_def Let_def)

lemma upper_char_idem: "upper_char (upper_char c) = upper_char c"
proof (cases "97 \<le> (of_char c :: nat) \<and> (of_char c :: nat) \<le> 122")
  case True
  then have "((of_char c :: nat) - 32) mod 256 = (of_char c :: nat) - 32" by auto
  with True show ?thesis by (auto simp: upper_char_def Let_def)
next
  case False
  then have "upper_char c = c" by (auto simp: upper_char_def Let_def)
  then show ?thesis by simp
qed

lemma lower_idem: "lower (lower s) = lower s"
  by (simp add: lower_def lower_char_idem)

lemma upper_idem: "upper (upper s) = upper s"
  by (simp add: upper_def upper_char_idem)

lemma is_space_lower_char: "is_space (lower_char c) = is_space c"
proof (cases "65 \<le> (of_char c :: nat) \<and> (of_char c :: nat) \<le> 90")
  case True
  then have "((of_char c :: nat) + 32) mod 256 = (of_char c :: nat) + 32" by auto
  with True show ?thesis by (auto simp: lower_char_def is_space_def Let_def)
next
  case False
  then have "lower_char c = c" by (auto simp: lower_char_def Let_def)
  then show ?thesis by simp
qed

lemma is_space_upper_char: "is_space (upper_char c) = is_space c"
proof (cases "97 \<le> (of_char c :: nat) \<and> (of_char c :: nat) \<le> 122")
  case True
  then have "((of_char c :: nat) - 32) mod 256 = (of_char c :: nat) - 32" by auto
  with True show ?thesis by (auto simp: upper_char_def is_space_def Let_def)
next
  case False
  then have "upper_char c = c" by (auto simp: upper_char_def Let_def)
  then show ?thesis by simp
qed

lemma strip_map:
  assumes "\<And>c. is_space (f c) = is_space c"
  shows "strip (map f s) = map f (strip s)"
proof -
  have comp: "is_space \<circ> f = is_space" using assms by (auto simp: fun_eq_iff)
  show ?thesis
    by (simp add: strip_def dropWhile_map rev_map comp)
qed

lemma strip_lower: "strip (lower s) = lower (strip s)"
  unfolding lower_def by (rule strip_map) (rule is_space_lower_char)

lemma strip_upper: "strip (upper s) = upper (strip s)"
  unfolding upper_def by (rule strip_map) (rule is_space_upper_char)

lemma dropWhile_fixed: "xs = [] \<or> \<not> P (hd xs) \<Longrightarrow> dropWhile P xs = xs"
  by (cases xs) auto

lemma dropWhile_hd: "dropWhile P xs = [] \<or> \<not> P (hd (dropWhile P xs))"
  by (metis hd_dropWhile)

lemma last_dropWhile: "dropWhile P ys \<noteq> [] \<Longrightarrow> last (dropWhile P ys) = last ys"
  by (induction ys) auto

lemma strip_idem: "strip (strip s) = strip s"
proof -
  define a where "a = dropWhile is_space s"
  define b where "b = dropWhile is_space (rev a)"
  have s1: "strip s = rev b" by (simp add: strip_def a_def b_def)
  have front: "rev b = [] \<or> \<not> is_space (hd (rev b))"
  proof (cases "b = []")
    case True
    then show ?thesis by simp
  next
    case False
    then have d: "dropWhile is_space (rev a) \<noteq> []" unfolding b_def .
    then have lb: "last b = last (rev a)" unfolding b_def by (rule last_dropWhile)
    from d have "rev a \<noteq> []" by (metis dropWhile.simps(1))
    then have ne: "a \<noteq> []" by simp
    then have "last (rev a) = hd a" by (simp add: last_rev)
    moreover have "\<not> is_space (hd a)"
      using ne dropWhile_hd [of is_space s] unfolding a_def by blast
    moreover have "hd (rev b) = last b" using False by (simp add: hd_rev)
    ultimately show ?thesis using lb by simp
  qed
  then have f: "dropWhile is_space (rev b) = rev b" by (rule dropWhile_fixed)
  have g: "dropWhile is_space b = b" unfolding b_def by simp
  have "strip (rev b) = rev (dropWhile is_space (rev (dropWhile is_space (rev b))))"
    by (simp only: strip_def)
  also have "\<dots> = rev b" by (simp only: f rev_rev_ident g)
  finally show ?thesis by (simp only: s1)
qed

lemma designated_val_ok: "designated n (map_option strip u) = Some v \<Longrightarrow> val_ok n v"
  by (cases u)
    (auto simp: designated_def val_ok_def lower_idem upper_idem empty_to_na_def strip_idem
      strip_lower strip_upper split: if_splits)

lemma normalize_text_no_raise:
  assumes "normalize_text df = Inr df'" and "(n, c) \<in> set df" and "n = ''Sex'' \<or> n = ''Ticket''"
  shows "\<exists>xs. c = ObjCol xs \<or> c = StrCol xs"
proof -
  from assms(1) obtain df1 df2 where
    s1: "update_named ''Sex'' (str_map lower) (strip_text_cols df) = Inr df1" and
    s2: "update_named ''Ticket'' (str_map upper) df1 = Inr df2"
    by (auto simp: normalize_text_def split: sum.splits)
  from assms(2) have m0: "(n, strip_col c) \<in> set (strip_text_cols df)"
    by (force simp: strip_text_cols_def)
  show ?thesis
  proof (cases "n = ''Sex''")
    case True
    from update_named_ok [OF s1 m0 True] show ?thesis
      by (cases c) auto
  next
    case False
    with assms(3) have t: "n = ''Ticket''" by simp
    from update_named_map [OF s1] m0 False have "(n, strip_col c) \<in> set df1" by force
    from update_named_ok [OF s2 this t] show ?thesis
      by (cases c) auto
  qed
qed

lemma normalized_settled:
  assumes "n = ''Sex'' \<or> n = ''Ticket'' \<Longrightarrow> \<exists>xs. c = ObjCol xs \<or> c = StrCol xs"
    and "no_string_dtype c"
  shows "settled n (normalized_col n c)"
  using assms by (cases c) (auto dest: designated_val_ok [OF sym])

lemma loaded_drop_duplicates: "loaded df \<Longrightarrow> loaded (drop_duplicates df)"
proof -
  have "\<And>keep c. no_string_dtype c \<Longrightarrow> no_string_dtype (col_take keep c)"
  proof -
    fix keep c show "no_string_dtype c \<Longrightarrow> no_string_dtype (col_take keep c)" by (cases c) auto
  qed
  then show "loaded df \<Longrightarrow> loaded (drop_duplicates df)"
    by (auto simp: loaded_def drop_duplicates_def list_all_iff Let_def)
qed

lemma normalize_text_settled:
  assumes "normalize_text df = Inr df'" and "loaded df" and "(n, c) \<in> set df'"
  shows "settled n c"
proof -
  from assms(1,3) obtain c0 where c0: "(n, c0) \<in> set df" and c: "c = normalized_col n c0"
    using normalize_text_map [OF assms(1)] by auto
  have "n = ''Sex'' \<or> n = ''Ticket'' \<Longrightarrow> \<exists>xs. c0 = ObjCol xs \<or> c0 = StrCol xs"
    using normalize_text_no_raise [OF assms(1) c0] by blast
  moreover from assms(2) c0 have "no_string_dtype c0" by (auto simp: loaded_def list_all_iff)
  ultimately show ?thesis using c by (simp add: normalized_settled)
qed

lemma fill_value_present:
  assumes "Some a \<in> set xs"
  shows "Some (fill_value xs) \<in> set xs"
proof -
  have "finite (most_frequent xs)"
  proof (rule finite_subset)
    show "most_frequent xs \<subseteq> set (present xs)" by (auto simp: most_frequent_def set_present)
    show "finite (set (present xs))" by simp
  qed
  then have "Min (most_frequent xs) \<in> most_frequent xs"
    using most_frequent_nonempty [OF assms] by (rule Min_in)
  then show ?thesis by (simp add: fill_value_Min [OF assms] most_frequent_def)
qed

lemma settled_fill:
  assumes "\<not> over_threshold c" and "settled n c"
  shows "settled n (fill_categorical_col (fill_numeric_col fp c))"
proof (cases c)
  case (NumCol xs)
  with assms show ?thesis by simp
next
  case (BoolCol xs)
  with assms show ?thesis by simp
next
  case (ObjCol xs)
  with assms show ?thesis by simp
next
  case (StrCol xs)
  show ?thesis
  proof (cases "None \<in> set xs")
    case True
    with assms(1) StrCol have "present xs \<noteq> []" by (simp add: not_over_has_present_str)
    then obtain a where "Some a \<in> set xs" by (auto simp: present_empty_iff)
    then have "Some (fill_value xs) \<in> set xs" by (rule fill_value_present)
    with assms(2) StrCol True show ?thesis
      by (auto simp: fillna_def split: option.splits)
  next
    case False
    with assms StrCol show ?thesis by simp
  qed
qed

lemma set_take_rows: "set (take_rows keep xs) \<subseteq> set xs"
  by (auto simp: take_rows_def dest: set_zip_leftD)

lemma final_col_take:
  assumes "final_col n c"
  shows "final_col n (col_take keep c)"
proof (cases c)
  case (NumCol xs)
  with assms show ?thesis
    using set_take_rows [of keep xs] by (auto simp: final_col_def filter_None_Nil)
next
  case (BoolCol xs)
  with assms show ?thesis by (simp add: final_col_def)
next
  case (ObjCol xs)
  with assms show ?thesis by (simp add: final_col_def)
next
  case (StrCol xs)
  with assms show ?thesis
    using set_take_rows [of keep xs] by (auto simp: final_col_def filter_None_Nil)
qed

lemma clean_settled:
  assumes "clean fp df = Inr out" and "loaded df" and "(n, c) \<in> set out"
  shows "settled n c"
proof -
  from assms(1) obtain df1 where
    n1: "normalize_text (drop_duplicates df) = Inr df1" and
    out: "out = fill_categorical (fill_numeric fp (drop_high_missing df1))"
    by (auto simp: clean_def split: sum.splits)
  with assms(3) obtain c0 where c0: "(n, c0) \<in> set (drop_high_missing df1)"
    and c: "c = fill_categorical_col (fill_numeric_col fp c0)"
    by (auto simp: set_fill_numeric set_fill_categorical)
  from c0 have no: "\<not> over_threshold c0" by (rule kept_not_over)
  from c0 have "(n, c0) \<in> set df1" by (simp add: drop_high_missing_def)
  with n1 assms(2) have "settled n c0"
    using normalize_text_settled loaded_drop_duplicates by blast
  with no c show ?thesis by (simp add: settled_fill)
qed

lemma final_strip: "final_col n c \<Longrightarrow> strip_col c = c"
  by (cases c) (auto simp: final_col_def)

lemma map_option_fixed:
  assumes "\<And>v. Some v \<in> set xs \<Longrightarrow> f v = v"
  shows "map (map_option f) xs = xs"
proof (rule map_idI)
  fix x assume "x \<in> set xs"
  with assms show "map_option f x = x" by (cases x) auto
qed

lemma final_lower: "final_col ''Sex'' c \<Longrightarrow> str_map lower c = Inr c"
  by (cases c) (auto simp: final_col_def val_ok_def intro: map_option_fixed)

lemma final_upper: "final_col ''Ticket'' c \<Longrightarrow> str_map upper c = Inr c"
  by (cases c) (auto simp: final_col_def val_ok_def intro: map_option_fixed)

lemma final_replace: "final_col ''Embarked'' c \<Longrightarrow> replace_empty c = Inr c"
proof (cases c)
  case (StrCol xs)
  assume "final_col ''Embarked'' c"
  with StrCol have "\<And>x. x \<in> set xs \<Longrightarrow> empty_to_na x = x"
    by (auto simp: final_col_def val_ok_def empty_to_na_def)
  then have "map empty_to_na xs = xs" by (rule map_idI)
  with StrCol show ?thesis by simp
qed (auto simp: final_col_def)

lemma update_named_fixed:
  assumes "\<And>c. (name, c) \<in> set df \<Longrightarrow> f c = Inr c"
  shows "update_named name f df = Inr df"
  using assms by (induction df) auto

lemma final_not_over: "final_col n c \<Longrightarrow> \<not> over_threshold c"
  by (simp add: final_col_def over_threshold_iff)

lemma final_fill: "final_col n c \<Longrightarrow> fill_categorical_col (fill_numeric_col fp c) = c"
  by (cases c) (auto simp: final_col_def filter_None_Nil)

lemma final_table_fixed:
  assumes "\<And>n c. (n, c) \<in> set t \<Longrightarrow> final_col n c"
  shows "normalize_text (as_loaded t) = Inr t"
    and "drop_high_missing t = t"
    and "fill_categorical (fill_numeric fp t) = t"
proof -
  have "\<And>n c. (n, c) \<in> set t \<Longrightarrow> strip_col (as_loaded_col c) = c"
  proof -
    fix n c assume "(n, c) \<in> set t"
    then have f: "final_col n c" by (rule assms)
    show "strip_col (as_loaded_col c) = c"
    proof (cases c)
      case (StrCol xs)
      with f have "\<And>v. Some v \<in> set xs \<Longrightarrow> strip v = v"
        by (auto simp: final_col_def val_ok_def)
      then have "map (map_option strip) xs = xs" by (rule map_option_fixed)
      with StrCol show ?thesis by simp
    qed (use f in \<open>auto simp: final_col_def\<close>)
  qed
  then have s: "strip_text_cols (as_loaded t) = t"
    unfolding strip_text_cols_def as_loaded_def map_map
    by (intro map_idI) auto
  show "normalize_text (as_loaded t) = Inr t"
    using assms
    by (simp add: normalize_text_def s update_named_fixed final_lower final_upper final_replace)
  have "drop_cols t = []"
    using assms by (auto simp: drop_cols_def filter_empty_conv dest: final_not_over)
  then show "drop_high_missing t = t" by (simp add: drop_high_missing_def)
  show "fill_categorical (fill_numeric fp t) = t"
    unfolding fill_categorical_def fill_numeric_def map_map
    by (rule map_idI) (auto dest: assms final_fill)
qed

lemma col_cells_as_loaded: "col_cells (as_loaded_col c) = col_cells c"
  by (cases c) simp_all

lemma col_len_as_loaded: "col_len (as_loaded_col c) = col_len c"
  by (cases c) simp_all

lemma col_take_as_loaded: "col_take keep (as_loaded_col c) = as_loaded_col (col_take keep c)"
  by (cases c) simp_all

lemma duplicated_as_loaded: "duplicated (as_loaded df) = duplicated df"
proof -
  have n: "nrows (as_loaded df) = nrows df"
    by (cases df) (auto simp: nrows_def as_loaded_def col_len_as_loaded)
  have r: "\<And>i. row_at (as_loaded df) i = row_at df i"
    by (simp add: row_at_def as_loaded_def comp_def case_prod_unfold col_cells_as_loaded)
  show ?thesis by (simp add: duplicated_def n r)
qed

lemma drop_duplicates_as_loaded: "drop_duplicates (as_loaded df) = as_loaded (drop_duplicates df)"
proof -
  let ?keep = "map Not (duplicated df)"
  have "drop_duplicates (as_loaded df) = map (\<lambda>(n, c). (n, col_take ?keep c)) (as_loaded df)"
    by (simp add: drop_duplicates_def duplicated_as_loaded Let_def)
  also have "\<dots> = as_loaded (map (\<lambda>(n, c). (n, col_take ?keep c)) df)"
    by (simp add: as_loaded_def comp_def case_prod_unfold col_take_as_loaded)
  also have "\<dots> = as_loaded (drop_duplicates df)"
    by (simp add: drop_duplicates_def Let_def)
  finally show ?thesis .
qed

lemma take_rows_all:
  assumes "length keep = length xs" and "\<forall>k \<in> set keep. k"
  shows "take_rows keep xs = xs"
proof -
  from assms(2) have "filter snd (zip xs keep) = zip xs keep"
    by (auto simp: filter_id_conv dest: set_zip_rightD)
  with assms(1) show ?thesis by (simp add: take_rows_def)
qed

lemma col_take_all:
  assumes "length keep = col_len c" and "\<forall>k \<in> set keep. k"
  shows "col_take keep c = c"
  using assms by (cases c) (simp_all add: take_rows_all)

lemma drop_duplicates_none:
  assumes "rectangular t" and "True \<notin> set (duplicated t)"
  shows "drop_duplicates t = t"
proof -
  let ?keep = "map Not (duplicated t)"
  have len: "length ?keep = nrows t" by (simp add: duplicated_def)
  from assms(2) have all: "\<forall>k \<in> set ?keep. k" by auto
  have "map (\<lambda>(n, c). (n, col_take ?keep c)) t = t"
  proof (rule map_idI)
    fix x assume x: "x \<in> set t"
    obtain n c where nc: "x = (n, c)" by (cases x)
    with x assms(1) have "col_len c = nrows t"
      by (auto simp: rectangular_def list_all_iff)
    with len all have "col_take ?keep c = c" by (simp add: col_take_all)
    with nc show "(case x of (n, c) \<Rightarrow> (n, col_take ?keep c)) = x" by simp
  qed
  then show ?thesis by (simp add: drop_duplicates_def Let_def)
qed

text \<open>
  Claim C4 as stated fails: stripping makes the first two rows of the example equal, after
  the duplicates were removed, so the output has a duplicate row; read back from its file,
  the output loses that row in a second application.
\<close>

theorem clean_twice_counterexample:
  "clean exact ex_spaces = Inr [(''Name'', StrCol [Some ''a'', Some ''a'', Some ''b''])]
   \<and> as_loaded [(''Name'', StrCol [Some ''a'', Some ''a'', Some ''b''])]
       = [(''Name'', ObjCol [Some ''a'', Some ''a'', Some ''b''])]
   \<and> clean exact [(''Name'', ObjCol [Some ''a'', Some ''a'', Some ''b''])]
       = Inr [(''Name'', StrCol [Some ''a'', Some ''b''])]
   \<and> [(''Name'', StrCol [Some ''a'', Some ''b''])] \<noteq> [(''Name'', StrCol [Some ''a'', Some ''a'', Some ''b''])]"
  unfolding ex_spaces_def by code_simp

text \<open>
  Claim C4, amended. Let the cleaning of a loaded table return a table without a missing
  value, and let the file written from it be read back with every value as it was written,
  the text columns as object columns. Then a second application returns that output with
  its duplicate rows removed and nothing else changed: no column is dropped and no
  remaining value is altered. When the output has no duplicate rows the second application
  returns an identical table.
\<close>

theorem clean_twice:
  assumes "clean fp df = Inr out" and "loaded df" and "no_missing out"
    and "read_back out = as_loaded out"
  shows "clean fp (read_back out) = Inr (drop_duplicates out)
    \<and> columns (drop_duplicates out) = columns out
    \<and> (rectangular out \<and> True \<notin> set (duplicated out) \<longrightarrow> clean fp (read_back out) = Inr out)"
proof -
  have fin: "\<And>n c. (n, c) \<in> set (drop_duplicates out) \<Longrightarrow> final_col n c"
  proof -
    fix n c assume "(n, c) \<in> set (drop_duplicates out)"
    then obtain c0 where m: "(n, c0) \<in> set out" and c: "c = col_take (map Not (duplicated out)) c0"
      by (auto simp: drop_duplicates_def Let_def)
    from assms(1,2) m have "settled n c0" by (rule clean_settled)
    moreover from assms(3) m have "isna_count c0 = 0" by (auto simp: no_missing_def list_all_iff)
    ultimately have "final_col n c0" by (simp add: final_col_def)
    with c show "final_col n c" by (simp add: final_col_take)
  qed
  have "clean fp (as_loaded out) = Inr (drop_duplicates out)"
    by (simp add: clean_def drop_duplicates_as_loaded final_table_fixed [OF fin])
  with assms(4) show ?thesis by (simp add: columns_drop_duplicates drop_duplicates_none)
qed

theorem clean_twice_witness:
  "clean exact ex_spaces = Inr [(''Name'', StrCol [Some ''a'', Some ''a'', Some ''b''])]
   \<and> clean exact (as_loaded [(''Name'', StrCol [Some ''a'', Some ''a'', Some ''b''])])
       = Inr (drop_duplicates [(''Name'', StrCol [Some ''a'', Some ''a'', Some ''b''])])
   \<and> drop_duplicates [(''Name'', StrCol [Some ''a'', Some ''a'', Some ''b''])] = [(''Name'', StrCol [Some ''a'', Some ''b''])]
   \<and> clean exact [(''Name'', ObjCol [Some ''a'', Some ''b''])] = Inr [(''Name'', StrCol [Some ''a'', Some ''b''])]
   \<and> clean exact (as_loaded [(''Name'', StrCol [Some ''a'', Some ''b''])]) = Inr [(''Name'', StrCol [Some ''a'', Some ''b''])]"
proof -
  let ?o1 = "[(''Name'', StrCol [Some ''a'', Some ''a'', Some ''b''])]"
  let ?o2 = "[(''Name'', StrCol [Some ''a'', Some ''b''])]"
  let ?d2 = "[(''Name'', ObjCol [Some ''a'', Some ''b''])]"
  have r1: "clean exact ex_spaces = Inr ?o1"
    unfolding ex_spaces_def by code_simp
  have l1: "loaded ex_spaces" by (simp add: ex_spaces_def loaded_def)
  have m1: "no_missing ?o1" by (simp add: no_missing_def)
  have dd: "drop_duplicates ?o1 = ?o2" by code_simp
  from clean_twice [OF r1 l1 m1, of as_loaded]
  have r2: "clean exact (as_loaded ?o1) = Inr (drop_duplicates ?o1)" by blast
  have r3: "clean exact ?d2 = Inr ?o2" by code_simp
  have l3: "loaded ?d2" by (simp add: loaded_def)
  have m3: "no_missing ?o2" by (simp add: no_missing_def)
  have rect: "rectangular ?o2" by code_simp
  have nodup: "True \<notin> set (duplicated ?o2)" by code_simp
  from clean_twice [OF r3 l3 m3, of as_loaded] rect nodup
  have r4: "clean exact (as_loaded ?o2) = Inr ?o2" by blast
  from r1 r2 dd r3 r4 show ?thesis by blast
qed

section \<open>Properties of the analyzer\<close>

subsection \<open>Outliers\<close>

text \<open>
  Claim C2 as stated fails: with linear interpolation the first quartile of the ten values
  lies a quarter of the way from the third to the fourth sorted value, at 2.25 and not at 2.
\<close>

theorem quartile_counterexample:
  "quantile ex_series (1 / 4) = Some (9 / 4) \<and> quantile ex_series (1 / 4) \<noteq> Some 2"
  unfolding ex_series_def by code_simp

text \<open>
  Claim C2, amended. For the values 1, 2, 2, 3, 3, 3, 4, 4, 5, 100 the linear-interpolation
  quantiles are Q1 = 2.25 and Q3 = 4, hence IQR = 1.75 and the fences are -0.375 and 6.625;
  exactly one value, 100, is counted as an outlier. In every series the outliers are the
  values strictly below the lower fence or strictly above the upper fence.
\<close>

theorem outlier_example:
  "iqr_of ex_series = Some \<lparr>Q1 = 9 / 4, Q3 = 4, IQR = 7 / 4, lower_fence = - 3 / 8, upper_fence = 53 / 8\<rparr>
   \<and> outliers ex_series = [100]
   \<and> outlier_count (NumCol (map (\<lambda>v. Some (Fin v)) ex_series)) = 1
   \<and> set (outliers series)
       = (case iqr_of series of
            None \<Rightarrow> {}
          | Some b \<Rightarrow> {v \<in> set series. v < lower_fence b \<or> upper_fence b < v})"
proof -
  have a: "iqr_of ex_series = Some \<lparr>Q1 = 9 / 4, Q3 = 4, IQR = 7 / 4, lower_fence = - 3 / 8, upper_fence = 53 / 8\<rparr>"
    unfolding ex_series_def by code_simp
  have b: "outliers ex_series = [100]"
    unfolding ex_series_def by code_simp
  have c: "outlier_count (NumCol (map (\<lambda>v. Some (Fin v)) ex_series)) = 1"
    unfolding ex_series_def by code_simp
  have d: "set (outliers series)
       = (case iqr_of series of
            None \<Rightarrow> {}
          | Some b \<Rightarrow> {v \<in> set series. v < lower_fence b \<or> upper_fence b < v})"
    by (auto simp: outliers_def split: option.splits)
  from a b c d show ?thesis by blast
qed

subsection \<open>Correlation\<close>

lemma inv_gap:
  fixes n u v :: rat
  assumes "(n + 1) * u = 1" and "n * v = 1"
  shows "v - u = u * v"
proof -
  have "v - u = v * ((n + 1) * u) - u * (n * v)" by (simp add: assms)
  also have "\<dots> = u * v" by algebra
  finally show ?thesis .
qed

lemma mean_snoc_alg:
  fixes n F x :: rat
  assumes "n \<noteq> 0" and "n + 1 \<noteq> 0"
  shows "(F + x) / (n + 1) = F / n + 1 / (n + 1) * (x - F / n)"
proof -
  define u where "u = inverse (n + 1)"
  define v where "v = inverse n"
  have mu: "(n + 1) * u = 1" using assms by (simp add: u_def)
  have nv: "n * v = 1" using assms by (simp add: v_def)
  have k: "v - u = u * v" using mu nv by (rule inv_gap)
  have "F * v + u * (x - F * v) - (F + x) * u = F * (v - u - u * v)" by algebra
  also have "\<dots> = 0" using k by simp
  finally have "(F + x) * u = F * v + u * (x - F * v)" by simp
  then show ?thesis by (simp add: u_def v_def divide_inverse)
qed

lemma co_dev_alg:
  fixes n F G P a b :: rat
  assumes "n \<noteq> 0" and "n + 1 \<noteq> 0"
  shows "(P + a * b) - (F + a) / (n + 1) * (G + b) - (G + b) / (n + 1) * (F + a)
           + (n + 1) * ((F + a) / (n + 1)) * ((G + b) / (n + 1))
         = (P - F / n * G - G / n * F + n * (F / n) * (G / n))
           + (a - (F + a) / (n + 1)) * (b - G / n)"
proof -
  define u where "u = inverse (n + 1)"
  define v where "v = inverse n"
  have mu: "(n + 1) * u = 1" using assms by (simp add: u_def)
  have nv: "n * v = 1" using assms by (simp add: v_def)
  have k: "v - u = u * v" using mu nv by (rule inv_gap)
  let ?X = "(F + a) * (G + b)"
  have l: "(P + a * b) - (F + a) * u * (G + b) - (G + b) * u * (F + a)
           + (n + 1) * ((F + a) * u) * ((G + b) * u)
      = P + a * b - 2 * (u * ?X) + ((n + 1) * u) * (u * ?X)" by algebra
  have r: "(P - F * v * G - G * v * F + n * (F * v) * (G * v))
           + (a - (F + a) * u) * (b - G * v)
      = P - 2 * (v * (F * G)) + (n * v) * (v * (F * G)) + (a - (F + a) * u) * (b - G * v)" by algebra
  have d: "(P + a * b - 2 * (u * ?X) + 1 * (u * ?X))
      - (P - 2 * (v * (F * G)) + 1 * (v * (F * G)) + (a - (F + a) * u) * (b - G * v))
      = (F + a) * G * (v - u - u * v)" by algebra
  have "(P + a * b) - (F + a) * u * (G + b) - (G + b) * u * (F + a)
           + (n + 1) * ((F + a) * u) * ((G + b) * u)
      = (P - F * v * G - G * v * F + n * (F * v) * (G * v))
           + (a - (F + a) * u) * (b - G * v)"
    unfolding l r mu nv using d k by simp
  then show ?thesis by (simp add: u_def v_def divide_inverse)
qed

lemma dev_sum:
  "sum_list (map (\<lambda>p. (f p - a) * (g p - b)) l)
     = sum_list (map (\<lambda>p. f p * g p) l) - a * sum_list (map g l) - b * sum_list (map f l)
       + of_nat (length l) * a * b"
  for a b :: rat
  by (induction l) (simp_all add: algebra_simps)

lemma mean_snoc:
  "mean (vs @ [x]) = mean vs + 1 / (of_nat (length vs) + 1) * (x - mean vs)"
proof (cases "vs = []")
  case True
  then show ?thesis by (simp add: mean_def)
next
  case False
  then have n: "rat_of_nat (length vs) \<noteq> 0" by simp
  have n1: "rat_of_nat (length vs) + 1 \<noteq> 0"
    by (metis of_nat_Suc of_nat_eq_0_iff nat.distinct(1) add.commute)
  have "mean (vs @ [x]) = (sum_list vs + x) / (rat_of_nat (length vs) + 1)"
    by (simp add: mean_def add.commute)
  also have "\<dots> = sum_list vs / rat_of_nat (length vs)
      + 1 / (rat_of_nat (length vs) + 1) * (x - sum_list vs / rat_of_nat (length vs))"
    using n n1 by (rule mean_snoc_alg)
  finally show ?thesis by (simp add: mean_def)
qed

lemma co_dev_snoc:
  "co_dev f g (l @ [p])
     = co_dev f g l + (f p - mean (map f (l @ [p]))) * (g p - mean (map g l))"
proof (cases "l = []")
  case True
  then show ?thesis by (simp add: co_dev_def mean_def)
next
  case False
  let ?n = "rat_of_nat (length l)"
  let ?F = "sum_list (map f l)"
  let ?G = "sum_list (map g l)"
  let ?P = "sum_list (map (\<lambda>p. f p * g p) l)"
  from False have n: "?n \<noteq> 0" by simp
  have n1: "?n + 1 \<noteq> 0"
    by (metis of_nat_Suc of_nat_eq_0_iff nat.distinct(1) add.commute)
  have mf: "mean (map f (l @ [p])) = (?F + f p) / (?n + 1)"
    and mg: "mean (map g (l @ [p])) = (?G + g p) / (?n + 1)"
    and mf0: "mean (map f l) = ?F / ?n" and mg0: "mean (map g l) = ?G / ?n"
    by (simp_all add: mean_def add.commute)
  have "co_dev f g (l @ [p])
      = (?P + f p * g p) - (?F + f p) / (?n + 1) * (?G + g p) - (?G + g p) / (?n + 1) * (?F + f p)
           + (?n + 1) * ((?F + f p) / (?n + 1)) * ((?G + g p) / (?n + 1))"
    unfolding co_dev_def dev_sum mf mg by (simp add: add.commute)
  also have "\<dots> = (?P - ?F / ?n * ?G - ?G / ?n * ?F + ?n * (?F / ?n) * (?G / ?n))
           + (f p - (?F + f p) / (?n + 1)) * (g p - ?G / ?n)"
    using n n1 by (rule co_dev_alg)
  also have "\<dots> = co_dev f g l + (f p - mean (map f (l @ [p]))) * (g p - mean (map g l))"
    unfolding co_dev_def dev_sum mf mg0 mf0 by simp
  finally show ?thesis .
qed

lemma exact_ops:
  assumes "rnd fp = Fin"
  shows "fadd fp (Some (Fin a)) (Some (Fin b)) = Some (Fin (a + b))"
    and "fsub fp (Some (Fin a)) (Some (Fin b)) = Some (Fin (a - b))"
    and "fmul fp (Some (Fin a)) (Some (Fin b)) = Some (Fin (a * b))"
    and "b \<noteq> 0 \<Longrightarrow> fdiv fp (Some (Fin a)) (Some (Fin b)) = Some (Fin (a / b))"
  using assms by (simp_all add: fadd_def fsub_def fmul_def fdiv_def neg_def)

lemma welford_exact:
  assumes "rnd fp = Fin"
  shows "foldl (add_row fp) no_rows l
    = \<lparr>nobs = length l, meanx = Some (Fin (mean (map fst l))), meany = Some (Fin (mean (map snd l))),
        ssqdm_x = Some (Fin (co_dev fst fst l)), ssqdm_y = Some (Fin (co_dev snd snd l)),
        covxy = Some (Fin (co_dev fst snd l))\<rparr>"
proof (induction l rule: rev_induct)
  case Nil
  then show ?case by (simp add: no_rows_def mean_def co_dev_def)
next
  case (snoc p l)
  have n1: "rat_of_nat (length l) + 1 \<noteq> 0"
    by (metis of_nat_Suc of_nat_eq_0_iff nat.distinct(1) add.commute)
  have mx: "mean (map fst l) + (fst p - mean (map fst l)) / (1 + rat_of_nat (length l))
      = mean (map fst (l @ [p]))"
    using mean_snoc [of "map fst l" "fst p"] by (simp add: add.commute)
  have my: "mean (map snd l) + (snd p - mean (map snd l)) / (1 + rat_of_nat (length l))
      = mean (map snd (l @ [p]))"
    using mean_snoc [of "map snd l" "snd p"] by (simp add: add.commute)
  show ?case
    unfolding foldl_append snoc.IH
    using n1
    by (simp add: add_row_def Let_def exact_ops [OF assms] mx my co_dev_snoc [symmetric]
        del: map_append)
qed

lemma pearson_exact:
  assumes "rnd fp = Fin"
  shows "pearson fp xs ys = pearson_r fp (both_finite xs ys)"
  by (simp add: pearson_def pearson_r_def welford_exact [OF assms] exact_ops [OF assms] Let_def)

lemma steady_first:
  assumes "rnd fp 0 = Fin 0" and "rnd fp 1 = Fin 1" and "rnd fp c = Fin c"
  shows "add_row fp no_rows (c, c) = steady c 1"
  using assms by (simp add: add_row_def no_rows_def steady_def Let_def fadd_def fsub_def fmul_def
      fdiv_def neg_def)

lemma steady_next:
  assumes "rnd fp 0 = Fin 0" and "\<exists>w. rnd fp (1 / of_nat (Suc k)) = Fin w"
    and c: "rnd fp c = Fin c"
  shows "add_row fp (steady c k) (c, c) = steady c (Suc k)"
proof -
  from assms(2) obtain w where w: "rnd fp (1 / of_nat (Suc k)) = Fin w" by blast
  have w': "rnd fp (1 / (1 + rat_of_nat k)) = Fin w"
    using w by (simp add: add.commute)
  show ?thesis
    using assms(1) w w' c
    by (simp add: add_row_def steady_def Let_def fadd_def fsub_def fmul_def fdiv_def neg_def
        add.commute)
qed

lemma steady_fold:
  assumes "rnd fp 0 = Fin 0" and "\<forall>k. \<exists>w. rnd fp (1 / of_nat (Suc k)) = Fin w"
    and "rnd fp c = Fin c" and "\<forall>p \<in> set ps. p = (c, c)"
  shows "foldl (add_row fp) (steady c k) ps = steady c (k + length ps)"
  using assms(4)
proof (induction ps arbitrary: k)
  case Nil
  then show ?case by simp
next
  case (Cons p ps)
  from Cons.prems have p: "p = (c, c)" and rest: "\<forall>q \<in> set ps. q = (c, c)" by simp_all
  have "add_row fp (steady c k) p = steady c (Suc k)"
    unfolding p using assms(1) assms(2) [rule_format] assms(3) by (rule steady_next)
  then show ?case using Cons.IH [OF rest, of "Suc k"] by simp
qed

lemma both_finite_same: "both_finite xs xs = map (\<lambda>a. (a, a)) (finite_present xs)"
  by (induction xs) (simp_all add: both_finite_def finite_present_def split: option.splits num.splits)

lemma all_equal_value:
  assumes "all_equal xs" and "a \<in> set (finite_present xs)" and "b \<in> set (finite_present xs)"
  shows "a = b"
proof -
  from assms(1) have "card (set (finite_present xs)) \<le> 1"
    by (simp add: all_equal_def length_remdups_card_conv)
  then show ?thesis using assms(2,3)
    by (metis List.finite_set card_le_Suc0_iff_eq One_nat_def)
qed

lemma pearson_constant:
  assumes "all_equal xs" and "exact_on fp xs"
  shows "pearson fp xs xs = None"
proof (cases "finite_present xs")
  case Nil
  then show ?thesis by (simp add: pearson_def both_finite_same no_rows_def)
next
  case (Cons c rest)
  from assms(2) have r0: "rnd fp 0 = Fin 0" and r1: "rnd fp 1 = Fin 1"
    and s0: "sqrt_fl fp 0 = Fin 0"
    and rk: "\<forall>k. \<exists>w. rnd fp (1 / of_nat (Suc k)) = Fin w"
    and ra: "\<forall>a \<in> set (finite_present xs). rnd fp a = Fin a"
    by (simp_all add: exact_on_def)
  from ra Cons have rc: "rnd fp c = Fin c" by simp
  have same: "\<forall>p \<in> set (map (\<lambda>a. (a, a)) rest). p = (c, c)"
    using all_equal_value [OF assms(1), of _ c] Cons by auto
  have "foldl (add_row fp) no_rows (both_finite xs xs)
      = foldl (add_row fp) (add_row fp no_rows (c, c)) (map (\<lambda>a. (a, a)) rest)"
    by (simp add: both_finite_same Cons)
  also have "\<dots> = steady c (1 + length (map (\<lambda>a. (a, a)) rest))"
    unfolding steady_first [OF r0 r1 rc] using r0 rk rc same by (rule steady_fold)
  finally show ?thesis
    using r0 s0 by (simp add: pearson_def steady_def fmul_def fsqrt_def)
qed

lemma corr_length: "length (corr fp df) = length (num_cols df)"
  by (simp add: corr_def Let_def)

lemma corr_row_length:
  "i < length (num_cols df) \<Longrightarrow> length (corr fp df ! i) = length (num_cols df)"
  by (simp add: corr_def Let_def)

lemma corr_entry:
  "i < length (num_cols df) \<Longrightarrow> j < length (num_cols df)
    \<Longrightarrow> corr fp df ! i ! j = pearson fp (num_data df ! max i j) (num_data df ! min i j)"
  by (simp add: corr_def num_data_def Let_def)

lemma corr_symmetric:
  "i < length (num_cols df) \<Longrightarrow> j < length (num_cols df)
    \<Longrightarrow> corr fp df ! i ! j = corr fp df ! j ! i"
  by (simp add: corr_entry max.commute min.commute)

lemma corr_diagonal_constant:
  assumes "i < length (num_cols df)" and "all_equal (num_data df ! i)"
    and "exact_on fp (num_data df ! i)"
  shows "corr fp df ! i ! i = None"
  using assms by (simp add: corr_entry pearson_constant)

lemma corr_exact:
  assumes "i < length (num_cols df)" and "j < length (num_cols df)" and "rnd fp = Fin"
  shows "corr fp df ! i ! j
    = pearson_r fp (both_finite (num_data df ! max i j) (num_data df ! min i j))"
  using assms by (simp add: corr_entry pearson_exact)

lemma exact_on_exact: "exact_on exact xs"
  by (simp add: exact_on_def exact_def isqrt_def)

lemma co_dev_same: "co_dev snd snd (map (\<lambda>a. (a, a)) l) = co_dev fst fst (map (\<lambda>a. (a, a)) l)"
  "co_dev fst snd (map (\<lambda>a. (a, a)) l) = co_dev fst fst (map (\<lambda>a. (a, a)) l)"
  by (simp_all add: co_dev_def comp_def)

lemma co_dev_zero:
  assumes "co_dev fst fst (map (\<lambda>a. (a, a)) l) = 0"
  shows "\<forall>a \<in> set l. a = mean l"
proof -
  let ?sq = "map (\<lambda>a. (a - mean l) * (a - mean l)) l"
  have z: "sum_list ?sq = 0"
    using assms by (simp add: co_dev_def comp_def)
  have "\<And>v. v \<in> set ?sq \<Longrightarrow> 0 \<le> v" by auto
  then have "(sum_list ?sq = 0) = (\<forall>v \<in> set ?sq. v = 0)"
    by (rule sum_list_nonneg_eq_0_iff)
  with z have "\<forall>v \<in> set ?sq. v = 0" by blast
  then show ?thesis by auto
qed

lemma not_all_equal:
  assumes "\<not> all_equal xs"
  shows "co_dev fst fst (both_finite xs xs) \<noteq> 0"
proof
  assume "co_dev fst fst (both_finite xs xs) = 0"
  then have "\<forall>a \<in> set (finite_present xs). a = mean (finite_present xs)"
    using co_dev_zero by (simp add: both_finite_same)
  then have "set (finite_present xs) \<subseteq> {mean (finite_present xs)}" by blast
  then have "card (set (finite_present xs)) \<le> card {mean (finite_present xs)}"
    by (intro card_mono) simp_all
  then have "all_equal xs" by (simp add: all_equal_def length_remdups_card_conv)
  with assms show False by contradiction
qed

lemma pearson_r_self:
  assumes "rnd fp = Fin" and "\<not> all_equal xs"
    and "sqrt_fl fp (co_dev fst fst (both_finite xs xs) * co_dev fst fst (both_finite xs xs))
          = Fin (co_dev fst fst (both_finite xs xs))"
  shows "pearson_r fp (both_finite xs xs) = Some (Fin 1)"
proof -
  let ?s = "co_dev fst fst (both_finite xs xs)"
  have s: "?s \<noteq> 0" using assms(2) by (rule not_all_equal)
  have ne: "both_finite xs xs \<noteq> []"
  proof
    assume "both_finite xs xs = []"
    then have "?s = 0" by (simp add: co_dev_def)
    with s show False by contradiction
  qed
  have same: "co_dev snd snd (both_finite xs xs) = ?s" "co_dev fst snd (both_finite xs xs) = ?s"
    by (simp_all add: both_finite_same co_dev_same)
  have d: "fsqrt fp (Some (Fin (?s * ?s))) = Some (Fin ?s)"
    using assms(3) by (simp add: fsqrt_def)
  show ?thesis
    using s ne by (simp add: pearson_r_def same d Let_def exact_ops(4) [OF assms(1)] clip_def flt_def
        less_num_def less_eq_num_def del: mult_eq_0_iff)
qed

lemma nobs_foldl: "nobs (foldl (add_row fp) st l) = nobs st + length l"
  by (induction l arbitrary: st) (simp_all add: add_row_def Let_def)

lemma add_row_diag:
  assumes "meany st = meanx st" and "ssqdm_y st = ssqdm_x st" and "covxy st = ssqdm_x st"
  shows "meany (add_row fp st (a, a)) = meanx (add_row fp st (a, a))
    \<and> ssqdm_y (add_row fp st (a, a)) = ssqdm_x (add_row fp st (a, a))
    \<and> covxy (add_row fp st (a, a)) = ssqdm_x (add_row fp st (a, a))"
  using assms by (simp add: add_row_def Let_def)

lemma foldl_diag:
  assumes "meany st = meanx st" and "ssqdm_y st = ssqdm_x st" and "covxy st = ssqdm_x st"
  shows "ssqdm_y (foldl (add_row fp) st (map (\<lambda>a. (a, a)) l))
          = ssqdm_x (foldl (add_row fp) st (map (\<lambda>a. (a, a)) l))
    \<and> covxy (foldl (add_row fp) st (map (\<lambda>a. (a, a)) l))
          = ssqdm_x (foldl (add_row fp) st (map (\<lambda>a. (a, a)) l))"
  using assms
proof (induction l arbitrary: st)
  case Nil
  then show ?case by simp
next
  case (Cons a l)
  from add_row_diag [OF Cons.prems, of fp a]
  have "meany (add_row fp st (a, a)) = meanx (add_row fp st (a, a))"
    and "ssqdm_y (add_row fp st (a, a)) = ssqdm_x (add_row fp st (a, a))"
    and "covxy (add_row fp st (a, a)) = ssqdm_x (add_row fp st (a, a))"
    by blast+
  then show ?case using Cons.IH [of "add_row fp st (a, a)"] by simp
qed

lemma pearson_self:
  "pearson fp xs xs =
    (if finite_present xs = [] then None
     else if fsqrt fp (fmul fp (self_ssq fp xs) (self_ssq fp xs)) \<noteq> Some (Fin 0)
       then clip (fdiv fp (self_ssq fp xs) (fsqrt fp (fmul fp (self_ssq fp xs) (self_ssq fp xs))))
       else None)"
proof -
  have d: "ssqdm_y (foldl (add_row fp) no_rows (both_finite xs xs)) = self_ssq fp xs"
    "covxy (foldl (add_row fp) no_rows (both_finite xs xs)) = self_ssq fp xs"
    using foldl_diag [of no_rows fp "finite_present xs"]
    by (simp_all add: self_ssq_def both_finite_same no_rows_def)
  have n: "nobs (foldl (add_row fp) no_rows (both_finite xs xs)) = length (finite_present xs)"
    by (simp add: nobs_foldl both_finite_same no_rows_def)
  show ?thesis
    unfolding pearson_def Let_def d n
    by (simp add: self_ssq_def)
qed

lemma pearson_regular:
  assumes "ssq_regular fp xs" and "rnd fp 1 = Fin 1"
  shows "pearson fp xs xs = Some (Fin 1)"
proof -
  from assms(1) obtain s where s: "self_ssq fp xs = Some (Fin s)" and nz: "s \<noteq> 0"
    and r: "fsqrt fp (fmul fp (Some (Fin s)) (Some (Fin s))) = Some (Fin s)"
    by (auto simp: ssq_regular_def split: option.splits num.splits)
  have ne: "finite_present xs \<noteq> []"
  proof
    assume "finite_present xs = []"
    then have "self_ssq fp xs = Some (Fin 0)"
      by (simp add: self_ssq_def both_finite_same no_rows_def)
    with s nz show False by simp
  qed
  have q: "fdiv fp (Some (Fin s)) (Some (Fin s)) = Some (Fin 1)"
    using nz assms(2) by (simp add: fdiv_def)
  have c: "clip (Some (Fin 1)) = Some (Fin 1)"
    by (simp add: clip_def flt_def less_num_def less_eq_num_def)
  show ?thesis
    using ne nz by (simp add: pearson_self s r q c)
qed

lemma corr_diagonal_regular:
  assumes "i < length (num_cols df)" and "ssq_regular fp (num_data df ! i)" and "rnd fp 1 = Fin 1"
  shows "corr fp df ! i ! i = Some (Fin 1)"
  using assms by (simp add: corr_entry pearson_regular)

lemma pearson_zero:
  assumes "self_ssq fp xs = Some (Fin 0)" and "rnd fp 0 = Fin 0" and "sqrt_fl fp 0 = Fin 0"
  shows "pearson fp xs xs = None"
  using assms by (simp add: pearson_self fmul_def fsqrt_def)

lemma corr_diagonal_zero:
  assumes "i < length (num_cols df)" and "self_ssq fp (num_data df ! i) = Some (Fin 0)"
    and "rnd fp 0 = Fin 0" and "sqrt_fl fp 0 = Fin 0"
  shows "corr fp df ! i ! i = None"
  using assms by (simp add: corr_entry pearson_zero)

lemma corr_diagonal_one:
  assumes "i < length (num_cols df)" and "\<not> all_equal (num_data df ! i)" and "rnd fp = Fin"
    and "exact_root fp (num_data df ! i)"
  shows "corr fp df ! i ! i = Some (Fin 1)"
proof -
  from assms(4)
  have "sqrt_fl fp (co_dev fst fst (both_finite (num_data df ! i) (num_data df ! i))
          * co_dev fst fst (both_finite (num_data df ! i) (num_data df ! i)))
        = Fin (co_dev fst fst (both_finite (num_data df ! i) (num_data df ! i)))"
    by (simp add: exact_root_def Let_def)
  with assms(3,2) have "pearson_r fp (both_finite (num_data df ! i) (num_data df ! i)) = Some (Fin 1)"
    by (rule pearson_r_self)
  with corr_exact [OF assms(1) assms(1) assms(3)] show ?thesis by simp
qed

text \<open>
  Claim C6 as stated fails: a numeric column whose values are all equal has no variance,
  the divisor of its self-correlation is 0 and its diagonal entry is NaN, not 1.
\<close>

theorem correlation_diagonal_counterexample:
  "2 \<le> length (num_cols ex_corr)
   \<and> fst (correlation_step exact ex_corr)
       = Some [[None, None, None],
               [None, Some (Fin 1), Some (Fin (- 1))],
               [None, Some (Fin (- 1)), Some (Fin 1)]]
   \<and> corr exact ex_corr ! 0 ! 0 \<noteq> Some (Fin 1)"
  by code_simp

text \<open>
  Claim C6, amended. Whenever the table has at least two numeric columns, the analyzer
  saves a square matrix with a row and a column for each of them, and the matrix is
  symmetric. A diagonal entry is NaN when the sum of squared deviations that the loop
  arrives at for its column is 0, as it is for a column whose finite values are all equal,
  and it is 1 when that sum is regular. Where the arithmetic rounds nothing, every entry
  is the Pearson coefficient of the rows in which both values are finite, and the
  diagonal entry of a column with two different finite values is 1 when the square root
  is exact as well. With fewer than two numeric columns the step is skipped with a
  warning, not an error.
\<close>

theorem correlation_matrix:
  "(2 \<le> length (num_cols df) \<longrightarrow>
      correlation_step fp df
        = (Some (corr fp df), [SavedCsv ''correlation_matrix.csv'', SavedPlot ''correlation_heatmap.png''])
      \<and> length (corr fp df) = length (num_cols df)
      \<and> (\<forall>i < length (num_cols df).
            length (corr fp df ! i) = length (num_cols df)
            \<and> (all_equal (num_data df ! i) \<and> exact_on fp (num_data df ! i)
                 \<longrightarrow> corr fp df ! i ! i = None)
            \<and> (self_ssq fp (num_data df ! i) = Some (Fin 0) \<and> rnd fp 0 = Fin 0 \<and> sqrt_fl fp 0 = Fin 0
                 \<longrightarrow> corr fp df ! i ! i = None)
            \<and> (ssq_regular fp (num_data df ! i) \<and> rnd fp 1 = Fin 1
                 \<longrightarrow> corr fp df ! i ! i = Some (Fin 1))
            \<and> (\<not> all_equal (num_data df ! i) \<and> rnd fp = Fin \<and> exact_root fp (num_data df ! i)
                 \<longrightarrow> corr fp df ! i ! i = Some (Fin 1))
            \<and> (\<forall>j < length (num_cols df).
                  corr fp df ! i ! j = corr fp df ! j ! i
                  \<and> (rnd fp = Fin \<longrightarrow>
                       corr fp df ! i ! j
                         = pearson_r fp (both_finite (num_data df ! max i j) (num_data df ! min i j))))))
   \<and> (length (num_cols df) < 2 \<longrightarrow>
        correlation_step fp df = (None, [Warned ''Not enough numeric columns for correlation.'']))"
  using corr_length corr_row_length corr_symmetric corr_diagonal_constant corr_diagonal_zero
    corr_diagonal_regular corr_diagonal_one corr_exact
  by (simp add: correlation_step_def)

theorem correlation_matrix_witness:
  "2 \<le> length (num_cols ex_corr)
   \<and> fst (correlation_step exact ex_corr) = Some (corr exact ex_corr)
   \<and> length (corr exact ex_corr) = 3
   \<and> all_equal (num_data ex_corr ! 0) \<and> exact_on exact (num_data ex_corr ! 0)
   \<and> self_ssq exact (num_data ex_corr ! 0) = Some (Fin 0) \<and> rnd exact 0 = Fin 0
   \<and> sqrt_fl exact 0 = Fin 0
   \<and> corr exact ex_corr ! 0 ! 0 = None
   \<and> ssq_regular exact (num_data ex_corr ! 1) \<and> rnd exact 1 = Fin 1
   \<and> \<not> all_equal (num_data ex_corr ! 1) \<and> rnd exact = Fin \<and> exact_root exact (num_data ex_corr ! 1)
   \<and> corr exact ex_corr ! 1 ! 1 = Some (Fin 1)
   \<and> corr exact ex_corr ! 1 ! 2 = corr exact ex_corr ! 2 ! 1
   \<and> corr exact ex_corr ! 1 ! 2
       = pearson_r exact (both_finite (num_data ex_corr ! 2) (num_data ex_corr ! 1))
   \<and> length (num_cols ex_spaces) < 2
   \<and> correlation_step exact ex_spaces
       = (None, [Warned ''Not enough numeric columns for correlation.''])"
proof -
  have cols: "length (num_cols ex_corr) = 3" unfolding ex_corr_def by code_simp
  then have l2: "2 \<le> length (num_cols ex_corr)" and i0: "0 < length (num_cols ex_corr)"
    and i1: "1 < length (num_cols ex_corr)" and i2: "2 < length (num_cols ex_corr)"
    by simp_all
  have eq: "all_equal (num_data ex_corr ! 0)" unfolding ex_corr_def by code_simp
  have ex: "exact_on exact (num_data ex_corr ! 0)" by (rule exact_on_exact)
  have z: "self_ssq exact (num_data ex_corr ! 0) = Some (Fin 0)" unfolding ex_corr_def by code_simp
  have r0: "rnd exact 0 = Fin 0" and r1: "rnd exact 1 = Fin 1" and s0: "sqrt_fl exact 0 = Fin 0"
    and rf: "rnd exact = Fin"
    by (simp_all add: exact_def isqrt_def)
  have reg: "ssq_regular exact (num_data ex_corr ! 1)" unfolding ex_corr_def by code_simp
  have ne: "\<not> all_equal (num_data ex_corr ! 1)" unfolding ex_corr_def by code_simp
  have er: "exact_root exact (num_data ex_corr ! 1)" unfolding ex_corr_def by code_simp
  have few: "length (num_cols ex_spaces) < 2" unfolding ex_spaces_def by code_simp
  from correlation_matrix [of ex_corr exact] l2
  have step: "correlation_step exact ex_corr
      = (Some (corr exact ex_corr), [SavedCsv ''correlation_matrix.csv'', SavedPlot ''correlation_heatmap.png''])"
    and len: "length (corr exact ex_corr) = length (num_cols ex_corr)"
    and entries: "\<forall>i < length (num_cols ex_corr).
            length (corr exact ex_corr ! i) = length (num_cols ex_corr)
            \<and> (all_equal (num_data ex_corr ! i) \<and> exact_on exact (num_data ex_corr ! i)
                 \<longrightarrow> corr exact ex_corr ! i ! i = None)
            \<and> (self_ssq exact (num_data ex_corr ! i) = Some (Fin 0) \<and> rnd exact 0 = Fin 0
                  \<and> sqrt_fl exact 0 = Fin 0
                 \<longrightarrow> corr exact ex_corr ! i ! i = None)
            \<and> (ssq_regular exact (num_data ex_corr ! i) \<and> rnd exact 1 = Fin 1
                 \<longrightarrow> corr exact ex_corr ! i ! i = Some (Fin 1))
            \<and> (\<not> all_equal (num_data ex_corr ! i) \<and> rnd exact = Fin \<and> exact_root exact (num_data ex_corr ! i)
                 \<longrightarrow> corr exact ex_corr ! i ! i = Some (Fin 1))
            \<and> (\<forall>j < length (num_cols ex_corr).
                  corr exact ex_corr ! i ! j = corr exact ex_corr ! j ! i
                  \<and> (rnd exact = Fin \<longrightarrow>
                       corr exact ex_corr ! i ! j
                         = pearson_r exact (both_finite (num_data ex_corr ! max i j) (num_data ex_corr ! min i j))))"
    by blast+
  from entries i0 eq ex have d0: "corr exact ex_corr ! 0 ! 0 = None" by blast
  from entries i1 reg r1 have d1: "corr exact ex_corr ! 1 ! 1 = Some (Fin 1)" by blast
  from entries i1 i2 have s12: "corr exact ex_corr ! 1 ! 2 = corr exact ex_corr ! 2 ! 1" by blast
  from entries i1 i2 rf have "corr exact ex_corr ! 1 ! 2
      = pearson_r exact (both_finite (num_data ex_corr ! max 1 2) (num_data ex_corr ! min 1 2))"
    by blast
  moreover have "max 1 2 = (2 :: nat)" and "min 1 2 = (1 :: nat)" by simp_all
  ultimately have p12: "corr exact ex_corr ! 1 ! 2
       = pearson_r exact (both_finite (num_data ex_corr ! 2) (num_data ex_corr ! 1))"
    by (simp only:)
  from step have f: "fst (correlation_step exact ex_corr) = Some (corr exact ex_corr)" by simp
  from len cols have l: "length (corr exact ex_corr) = 3" by simp
  from correlation_matrix [of ex_spaces exact] few
  have skip: "correlation_step exact ex_spaces
       = (None, [Warned ''Not enough numeric columns for correlation.''])"
    by blast
  from l2 f l eq ex z r0 s0 d0 reg r1 ne rf er d1 s12 p12 few skip show ?thesis by blast
qed

subsection \<open>Survival rate by sex\<close>

lemma sorts_set:
  assumes "sorts argsort"
  shows "set (argsort xs) = {0..<length xs}"
proof -
  from assms have "mset (argsort xs) = mset [0..<length xs]" by (simp add: sorts_def)
  then have "set (argsort xs) = set [0..<length xs]" by (rule mset_eq_setD)
  then show ?thesis by simp
qed

lemma follows_Some: "follows (Some x) (Some y) = (y \<le> x)"
  by (simp add: follows_def)

lemma follows_None: "follows a None"
  by (simp add: follows_def)

lemma descending_sorted_rev:
  assumes "sorted vs"
  shows "descending (map Some (rev vs) @ replicate n None)"
proof -
  have "sorted_wrt (\<lambda>x y. y \<le> x) (rev vs)"
    using assms by (simp add: sorted_wrt_rev)
  then have "sorted_wrt follows (map Some (rev vs))"
    by (simp add: sorted_wrt_map follows_Some)
  moreover have "sorted_wrt follows (replicate n (None :: double))"
    by (simp add: sorted_wrt_iff_nth_less follows_None)
  ultimately show ?thesis
    by (simp add: descending_def sorted_wrt_append follows_None)
qed

lemma nans_replicate:
  "map snd (filter (\<lambda>(k, v). v = None) s) = replicate (length (filter (\<lambda>(k, v). v = None) s)) None"
  by (induction s) auto

lemma sort_values_desc_descending:
  assumes "sorts argsort"
  shows "descending (map snd (sort_values_desc argsort s))"
proof -
  define r where "r = rev (concat (map (\<lambda>(k, v). case v of None \<Rightarrow> [] | Some x \<Rightarrow> [(k, x)]) s))"
  define vs where "vs = map snd r"
  have in_range: "\<forall>i \<in> set (argsort vs). i < length r"
    using sorts_set [OF assms, of vs] by (simp add: vs_def)
  have "map (\<lambda>i. Some (snd (r ! i))) (rev (argsort vs))
      = map Some (rev (map (\<lambda>i. vs ! i) (argsort vs)))"
    using in_range by (simp add: vs_def rev_map)
  moreover have "sorted (map (\<lambda>i. vs ! i) (argsort vs))"
    using assms by (simp add: sorts_def)
  ultimately have "descending (map (\<lambda>i. Some (snd (r ! i))) (rev (argsort vs))
      @ replicate (length (filter (\<lambda>(k, v). v = None) s)) None)"
    using descending_sorted_rev by metis
  then show ?thesis
    by (simp add: sort_values_desc_def Let_def r_def [symmetric] vs_def [symmetric] comp_def
        nans_replicate)
qed

lemma split_nans:
  "mset (map (\<lambda>(k, x). (k, Some x))
      (concat (map (\<lambda>(k, v). case v of None \<Rightarrow> [] | Some x \<Rightarrow> [(k, x)]) s)))
    + mset (filter (\<lambda>(k, v). v = None) s) = mset s"
  by (induction s) (auto split: option.splits)

lemma sort_values_desc_mset:
  assumes "sorts argsort"
  shows "mset (sort_values_desc argsort s) = mset s"
proof -
  define nn where "nn = concat (map (\<lambda>(k, v). case v of None \<Rightarrow> [] | Some x \<Rightarrow> [(k, x)]) s)"
  define r where "r = rev nn"
  define vs where "vs = map snd r"
  let ?f = "\<lambda>i. (fst (r ! i), Some (snd (r ! i)))"
  have "mset (map ?f (rev (argsort vs))) = image_mset ?f (mset (argsort vs))"
    by simp
  also have "\<dots> = image_mset ?f (mset [0..<length r])"
    using assms by (simp add: sorts_def vs_def)
  also have "\<dots> = mset (map ?f [0..<length r])" by simp
  also have "map ?f [0..<length r] = map (\<lambda>(k, x). (k, Some x)) r"
    by (rule nth_equalityI) (simp_all add: case_prod_beta)
  also have "mset (map (\<lambda>(k, x). (k, Some x)) r) = mset (map (\<lambda>(k, x). (k, Some x)) nn)"
    by (simp add: r_def)
  finally have "mset (map ?f (rev (argsort vs))) + mset (filter (\<lambda>(k, v). v = None) s) = mset s"
    using split_nans [of s] by (simp add: nn_def)
  then show ?thesis
    by (simp add: sort_values_desc_def Let_def nn_def [symmetric] r_def [symmetric]
        vs_def [symmetric])
qed

lemma argsort_pair:
  assumes "sorts argsort" and "a < b"
  shows "argsort [a, b] = [0, 1]"
proof -
  from assms(1) [unfolded sorts_def]
  have m0: "mset (argsort [a, b]) = mset [0..<length [a, b]]"
    and s: "sorted (map (\<lambda>i. [a, b] ! i) (argsort [a, b]))"
    by blast+
  have u: "[0..<length [a, b]] = [0, 1]" by (simp add: upt_rec)
  from m0 have m: "mset (argsort [a, b]) = mset [0, 1 :: nat]" unfolding u .
  from m have "length (argsort [a, b]) = length [0, 1 :: nat]"
    by (rule mset_eq_length)
  then obtain x y where l: "argsort [a, b] = [x, y]"
    by (metis length_0_conv length_Suc_conv list.size(3))
  from m l have "{#x, y#} = {#0, 1#}"
    by simp
  then have "(x = 0 \<and> y = 1) \<or> (x = 1 \<and> y = 0)"
    by (auto simp: add_eq_conv_ex)
  with s l assms(2) show ?thesis by auto
qed

lemma sorts_stable: "sorts stable_argsort"
proof -
  have "mset (stable_argsort xs) = mset [0..<length xs]"
    and "sorted (map (\<lambda>i. xs ! i) (stable_argsort xs))" for xs :: "'a::linorder list"
  proof -
    let ?z = "zip xs [0..<length xs]"
    have z: "map snd ?z = [0..<length xs]" by simp
    have "mset (stable_argsort xs) = mset (map snd ?z)"
      by (simp only: stable_argsort_def mset_map mset_sort)
    then show "mset (stable_argsort xs) = mset [0..<length xs]" unfolding z .
    have pair: "\<forall>p \<in> set (sort_key fst ?z). xs ! snd p = fst p"
      by (auto simp: set_zip)
    have "map (\<lambda>i. xs ! i) (stable_argsort xs) = map (\<lambda>p. xs ! snd p) (sort_key fst ?z)"
      by (simp add: stable_argsort_def comp_def)
    also have "\<dots> = map fst (sort_key fst ?z)"
      using pair by (simp cong: map_cong)
    finally show "sorted (map (\<lambda>i. xs ! i) (stable_argsort xs))" by simp
  qed
  then show ?thesis unfolding sorts_def by blast
qed

lemma half_less_one: "Fin (1 / 2) < Fin 1"
  by (simp add: less_num_def less_eq_num_def)

lemma sort_pair_desc:
  assumes "sorts argsort" and "a < b"
  shows "sort_values_desc argsort [(k1, Some b), (k2, Some a)] = [(k1, Some b), (k2, Some a)]"
  using argsort_pair [OF assms] by (simp add: sort_values_desc_def)

lemma mean_of_male:
  assumes "rnd fp 0 = Fin 0" and "rnd fp 1 = Fin 1" and "rnd fp (1 / 2) = Fin (1 / 2)"
  shows "mean_of fp [Fin 0, Fin 1] = Some (Fin (1 / 2))"
  using assms by (simp add: mean_of_def kahan_add_def Let_def fadd_def fsub_def fdiv_def neg_def)

lemma mean_of_female:
  assumes "rnd fp 0 = Fin 0" and "rnd fp 1 = Fin 1" and "rnd fp 2 = Fin 2"
  shows "mean_of fp [Fin 1, Fin 1] = Some (Fin 1)"
  using assms by (simp add: mean_of_def kahan_add_def Let_def fadd_def fsub_def fdiv_def neg_def)

lemma ex_sex_groups:
  "colname ex_sex ''sex'' = Some ''sex''"
  "colname ex_sex ''survived'' = Some ''survived''"
  "set_col ex_sex ''survived'' (to_numeric parse (get_col ex_sex ''survived'')) = ex_sex"
  "group_keys (get_col ex_sex ''sex'') = [TextV ''female'', TextV ''male'']"
  "present (map snd (filter (\<lambda>(c, v). c = TextV ''female'')
      (zip (col_cells (get_col ex_sex ''sex'')) (numeric_values (get_col ex_sex ''survived'')))))
    = [Fin 1, Fin 1]"
  "present (map snd (filter (\<lambda>(c, v). c = TextV ''male'')
      (zip (col_cells (get_col ex_sex ''sex'')) (numeric_values (get_col ex_sex ''survived'')))))
    = [Fin 0, Fin 1]"
  unfolding ex_sex_def by code_simp+

lemma ex_sex_rates:
  assumes "rnd fp 0 = Fin 0" and "rnd fp 1 = Fin 1" and "rnd fp 2 = Fin 2"
    and "rnd fp (1 / 2) = Fin (1 / 2)"
  shows "groupby_mean fp (get_col ex_sex ''sex'') (get_col ex_sex ''survived'')
    = [(TextV ''female'', Some (Fin 1)), (TextV ''male'', Some (Fin (1 / 2)))]"
  by (simp add: groupby_mean_def group_mean_def ex_sex_groups Let_def
      mean_of_male [OF assms(1,2,4)] mean_of_female [OF assms(1,2,3)])

lemma survival_ex_sex:
  assumes "sorts argsort" and "rnd fp 0 = Fin 0" and "rnd fp 1 = Fin 1" and "rnd fp 2 = Fin 2"
    and "rnd fp (1 / 2) = Fin (1 / 2)"
  shows "survival_step fp parse argsort ex_sex
     = (ex_sex, Some [(TextV ''female'', Some (Fin 1)), (TextV ''male'', Some (Fin (1 / 2)))],
        [SavedPlot ''bar_survival_rate_by_sex.png'', SavedCsv ''survival_rate_by_sex.csv''])"
  by (simp add: survival_step_def ex_sex_groups Let_def ex_sex_rates [OF assms(2-5)]
      sort_pair_desc [OF assms(1) half_less_one])

lemma survival_sorted:
  assumes "sorts argsort" and "colname df ''sex'' = Some a" and "colname df ''survived'' = Some b"
  shows "\<exists>rs. fst (snd (survival_step fp parse argsort df)) = Some rs
           \<and> mset rs = mset (group_rates fp parse df a b) \<and> descending (map snd rs)"
  using assms(2,3)
  by (simp add: survival_step_def group_rates_def Let_def sort_values_desc_mset [OF assms(1)]
      sort_values_desc_descending [OF assms(1)])

lemma survival_skipped:
  assumes "colname df ''sex'' = None \<or> colname df ''survived'' = None"
  shows "survival_step fp parse argsort df
          = (df, None, [Warned ''Need both 'sex' and 'survived' for survival-by-sex plot. Skipping.''])"
  using assms by (auto simp: survival_step_def split: option.splits)

text \<open>
  Claim C7. For the four rows (male, 0), (male, 1), (female, 1), (female, 1) the mean outcome
  per group is female = 1 and male = 0.5, reported in this order, whatever the sort does
  with equal values and in every arithmetic that is exact on 0, 1/2, 1 and 2. For every
  table that has both columns the report holds the rates of the groups, each once, in
  descending order, the groups without a rate last. When the table has no column named
  sex or none named survived (in any letter case) the step is skipped with a warning.
\<close>

theorem survival_by_sex_example:
  "(sorts argsort \<and> rnd fp 0 = Fin 0 \<and> rnd fp 1 = Fin 1 \<and> rnd fp 2 = Fin 2
      \<and> rnd fp (1 / 2) = Fin (1 / 2) \<longrightarrow>
      survival_step fp parse argsort ex_sex
        = (ex_sex, Some [(TextV ''female'', Some (Fin 1)), (TextV ''male'', Some (Fin (1 / 2)))],
           [SavedPlot ''bar_survival_rate_by_sex.png'', SavedCsv ''survival_rate_by_sex.csv'']))
   \<and> (sorts argsort \<and> colname df ''sex'' = Some a \<and> colname df ''survived'' = Some b \<longrightarrow>
        (\<exists>rs. fst (snd (survival_step fp parse argsort df)) = Some rs
           \<and> mset rs = mset (group_rates fp parse df a b) \<and> descending (map snd rs)))
   \<and> (colname df ''sex'' = None \<or> colname df ''survived'' = None \<longrightarrow>
        survival_step fp parse argsort df
          = (df, None, [Warned ''Need both 'sex' and 'survived' for survival-by-sex plot. Skipping.'']))"
  using survival_ex_sex survival_sorted survival_skipped by blast

theorem survival_by_sex_example_witness:
  "sorts (stable_argsort :: num list \<Rightarrow> nat list)
   \<and> rnd exact 0 = Fin 0 \<and> rnd exact 1 = Fin 1 \<and> rnd exact 2 = Fin 2
   \<and> rnd exact (1 / 2) = Fin (1 / 2)
   \<and> survival_step exact (\<lambda>s. None) stable_argsort ex_sex
        = (ex_sex, Some [(TextV ''female'', Some (Fin 1)), (TextV ''male'', Some (Fin (1 / 2)))],
           [SavedPlot ''bar_survival_rate_by_sex.png'', SavedCsv ''survival_rate_by_sex.csv''])
   \<and> colname ex_class ''sex'' = Some ''Sex'' \<and> colname ex_class ''survived'' = Some ''Survived''
   \<and> group_rates exact (\<lambda>s. None) ex_class ''Sex'' ''Survived''
        = [(TextV ''a'', Some (Fin (1 / 2))), (TextV ''b'', Some (Fin 1))]
   \<and> (\<exists>rs. fst (snd (survival_step exact (\<lambda>s. None) stable_argsort ex_class)) = Some rs
         \<and> mset rs = mset (group_rates exact (\<lambda>s. None) ex_class ''Sex'' ''Survived'')
         \<and> descending (map snd rs))
   \<and> colname ex_no_survived ''survived'' = None
   \<and> survival_step exact (\<lambda>s. None) stable_argsort ex_no_survived
      = (ex_no_survived, None,
         [Warned ''Need both 'sex' and 'survived' for survival-by-sex plot. Skipping.''])"
proof -
  have s: "sorts (stable_argsort :: num list \<Rightarrow> nat list)" by (rule sorts_stable)
  have r: "rnd exact 0 = Fin 0" "rnd exact 1 = Fin 1" "rnd exact 2 = Fin 2"
    "rnd exact (1 / 2) = Fin (1 / 2)"
    by (simp_all add: exact_def)
  have c: "colname ex_class ''sex'' = Some ''Sex''" "colname ex_class ''survived'' = Some ''Survived''"
    unfolding ex_class_def by code_simp+
  have g: "group_rates exact (\<lambda>s. None) ex_class ''Sex'' ''Survived''
        = [(TextV ''a'', Some (Fin (1 / 2))), (TextV ''b'', Some (Fin 1))]"
    unfolding ex_class_def by code_simp
  have n: "colname ex_no_survived ''survived'' = None"
    unfolding ex_no_survived_def by code_simp
  from survival_by_sex_example [where argsort = stable_argsort and fp = exact and df = ex_class
      and a = "''Sex''" and b = "''Survived''" and parse = "\<lambda>s. None"] s r c
  have one: "survival_step exact (\<lambda>s. None) stable_argsort ex_sex
        = (ex_sex, Some [(TextV ''female'', Some (Fin 1)), (TextV ''male'', Some (Fin (1 / 2)))],
           [SavedPlot ''bar_survival_rate_by_sex.png'', SavedCsv ''survival_rate_by_sex.csv''])"
    and two: "\<exists>rs. fst (snd (survival_step exact (\<lambda>s. None) stable_argsort ex_class)) = Some rs
         \<and> mset rs = mset (group_rates exact (\<lambda>s. None) ex_class ''Sex'' ''Survived'')
         \<and> descending (map snd rs)"
    by blast+
  from survival_by_sex_example [where argsort = stable_argsort and fp = exact and df = ex_no_survived
      and parse = "\<lambda>s. None"] n
  have three: "survival_step exact (\<lambda>s. None) stable_argsort ex_no_survived
      = (ex_no_survived, None,
         [Warned ''Need both 'sex' and 'survived' for survival-by-sex plot. Skipping.''])"
    by blast
  from s r one c g two n three show ?thesis by blast
qed

subsection \<open>The input file\<close>

text \<open>
  Claim C8. If the input file of the analyzer does not exist, the run ends at once with a
  FileNotFoundError whose message names the file, and has produced nothing; if the file
  exists, it is loaded, and once loaded the run goes on to create its output directory.
\<close>

theorem missing_input_file:
  "(\<not> path_exists input_file \<longrightarrow>
      eda_main path_exists read_csv lib
        = (Inl (FileNotFoundError (not_found_message input_file)), []))
   \<and> not_found_message input_file
        = [CHR 0xE2, CHR 0x9D, CHR 0x8C] @ '' '' @ [CHR 0x27] @ ''titanic_cleaned.csv'' @ [CHR 0x27]
            @ '' not found. Make sure it is in the same folder as this script.''
   \<and> (path_exists input_file \<longrightarrow>
        (\<forall>e. read_csv input_file = Inl e \<longrightarrow> eda_main path_exists read_csv lib = (Inl e, []))
        \<and> (\<forall>df. read_csv input_file = Inr df \<longrightarrow>
              (\<exists>r ev. eda_main path_exists read_csv lib = (Inr r, MadeDir out_dir # ev))))"
  by (auto simp: eda_main_def not_found_message_def input_file_def split: prod.splits)

theorem missing_input_file_witness:
  "eda_main (\<lambda>p. False) (\<lambda>p. Inr ex_sex) ex_library
     = (Inl (FileNotFoundError (not_found_message input_file)), [])
   \<and> (\<exists>r ev. eda_main (\<lambda>p. True) (\<lambda>p. Inr ex_sex) ex_library = (Inr r, MadeDir out_dir # ev))"
  using missing_input_file [of "\<lambda>p. False" "\<lambda>p. Inr ex_sex" ex_library]
    missing_input_file [of "\<lambda>p. True" "\<lambda>p. Inr ex_sex" ex_library]
  by simp

end
